theory Spec2Isabelle
  imports Main
begin

section \<open>Go strings and the library functions the loader calls\<close>

text \<open>
  A Go \<open>string\<close> and a Go \<open>[]byte\<close> are both sequences of bytes; both are modelled as
  \<^typ>\<open>string\<close>, a list of 8-bit characters. Conversions \<open>string(b)\<close> and \<open>[]byte(s)\<close>
  are the identity. The functions below follow the Go standard library
  (\<open>strings\<close>, \<open>bytes\<close>, \<open>path\<close>, \<open>unicode\<close>, \<open>unicode/utf8\<close>, \<open>bufio\<close>, \<open>fmt\<close>)
  for the argument shapes that \<open>api/kv/kv.go\<close> passes: separators of one byte and
  cut sets of ASCII characters.
\<close>

definition strings_HasPrefix :: "string \<Rightarrow> string \<Rightarrow> bool" where
  "strings_HasPrefix s p = (length p \<le> length s \<and> take (length p) s = p)"

definition strings_HasSuffix :: "string \<Rightarrow> string \<Rightarrow> bool" where
  "strings_HasSuffix s suf =
     (length suf \<le> length s \<and> drop (length s - length suf) s = suf)"

definition strings_TrimPrefix :: "string \<Rightarrow> string \<Rightarrow> string" where
  "strings_TrimPrefix s p = (if strings_HasPrefix s p then drop (length p) s else s)"

definition strings_TrimSuffix :: "string \<Rightarrow> string \<Rightarrow> string" where
  "strings_TrimSuffix s suf =
     (if strings_HasSuffix s suf then take (length s - length suf) s else s)"

text \<open>\<open>strings.Index(s, sep)\<close> for a separator of one byte: the first index, or \<open>-1\<close>.\<close>

fun strings_IndexByte :: "string \<Rightarrow> char \<Rightarrow> int" where
  "strings_IndexByte [] c = - 1"
| "strings_IndexByte (x # xs) c =
     (if x = c then 0
      else (let i = strings_IndexByte xs c in if i < 0 then - 1 else i + 1))"

text \<open>\<open>strings.Count(s, sep)\<close> for a separator of one byte.\<close>

fun strings_Count :: "string \<Rightarrow> char \<Rightarrow> nat" where
  "strings_Count [] c = 0"
| "strings_Count (x # xs) c = (if x = c then 1 else 0) + strings_Count xs c"

text \<open>
  \<open>genSplit\<close> of package \<open>strings\<close> (with \<open>sepSave = 0\<close>), the body of both \<open>Split\<close> and
  \<open>SplitN\<close>. The loop runs at most \<open>n - 1\<close> times and cuts at the first separator each
  time; what is left becomes the last piece.
\<close>

fun genSplit_loop :: "string \<Rightarrow> char \<Rightarrow> nat \<Rightarrow> string list" where
  "genSplit_loop s c 0 = [s]"
| "genSplit_loop s c (Suc k) =
     (let m = strings_IndexByte s c
      in if m < 0 then [s]
         else take (nat m) s # genSplit_loop (drop (nat m + 1) s) c k)"

definition genSplit :: "string \<Rightarrow> char \<Rightarrow> int \<Rightarrow> string list" where
  "genSplit s c n =
     (if n = 0 then []
      else let n1 = (if n < 0 then int (strings_Count s c) + 1 else n);
               n2 = (if n1 > int (length s) + 1 then int (length s) + 1 else n1)
           in genSplit_loop s c (nat (n2 - 1)))"

definition strings_SplitN :: "string \<Rightarrow> char \<Rightarrow> int \<Rightarrow> string list" where
  "strings_SplitN s c n = genSplit s c n"

definition strings_Split :: "string \<Rightarrow> char \<Rightarrow> string list" where
  "strings_Split s c = genSplit s c (- 1)"

text \<open>
  \<open>strings.TrimLeft\<close>, \<open>TrimRight\<close> and \<open>Trim\<close> with an ASCII cut set: bytes are removed
  from the end concerned for as long as they belong to the cut set. The cut set is a
  set of characters, not a suffix.
\<close>

definition strings_TrimLeft :: "string \<Rightarrow> string \<Rightarrow> string" where
  "strings_TrimLeft s cutset = dropWhile (\<lambda>c. c \<in> set cutset) s"

definition strings_TrimRight :: "string \<Rightarrow> string \<Rightarrow> string" where
  "strings_TrimRight s cutset = rev (dropWhile (\<lambda>c. c \<in> set cutset) (rev s))"

definition strings_Trim :: "string \<Rightarrow> string \<Rightarrow> string" where
  "strings_Trim s cutset = strings_TrimLeft (strings_TrimRight s cutset) cutset"

text \<open>
  \<open>path.Base\<close>: the last element of a slash-separated path, after removing trailing
  slashes; \<open>.\<close> for the empty path and \<open>/\<close> for a path of slashes only.
\<close>

definition path_Base :: "string \<Rightarrow> string" where
  "path_Base p =
     (if p = [] then ''.''
      else let p1 = strings_TrimRight p ''/'';
               p2 = rev (takeWhile (\<lambda>c. c \<noteq> CHR ''/'') (rev p1))
           in if p2 = [] then ''/'' else p2)"

subsection \<open>UTF-8 and white space\<close>

text \<open>
  The table \<open>first\<close> of \<open>unicode/utf8\<close> for the bytes from \<open>0x80\<close> on: the length
  of the sequence a byte starts and the range its second byte must lie in, or nothing
  for a byte that cannot start a sequence. Bytes are read as numbers with \<open>of_char\<close>;
  bytes and runes are integers.
\<close>

definition utf8_first :: "int \<Rightarrow> (nat \<times> int \<times> int) option" where
  "utf8_first b =
     (if 0xC2 \<le> b \<and> b \<le> 0xDF then Some (2, 0x80, 0xBF)
      else if b = 0xE0 then Some (3, 0xA0, 0xBF)
      else if 0xE1 \<le> b \<and> b \<le> 0xEC then Some (3, 0x80, 0xBF)
      else if b = 0xED then Some (3, 0x80, 0x9F)
      else if b = 0xEE \<or> b = 0xEF then Some (3, 0x80, 0xBF)
      else if b = 0xF0 then Some (4, 0x90, 0xBF)
      else if 0xF1 \<le> b \<and> b \<le> 0xF3 then Some (4, 0x80, 0xBF)
      else if b = 0xF4 then Some (4, 0x80, 0x8F)
      else None)"

definition is_cont :: "int \<Rightarrow> bool" where
  "is_cont b = (0x80 \<le> b \<and> b \<le> 0xBF)"

definition RuneError :: int where
  "RuneError = 0xFFFD"

text \<open>\<open>utf8.DecodeRune\<close>: the first rune of \<open>p\<close> and its width in bytes.\<close>

definition utf8_DecodeRune :: "string \<Rightarrow> int \<times> nat" where
  "utf8_DecodeRune p =
     (case p of
        [] \<Rightarrow> (RuneError, 0)
      | c0 # t \<Rightarrow>
          (let p0 = of_char c0 in
           if p0 < 0x80 then (p0, 1)
           else (case utf8_first p0 of
                   None \<Rightarrow> (RuneError, 1)
                 | Some (sz, lo, hi) \<Rightarrow>
                     if length p < sz then (RuneError, 1)
                     else (let b1 = of_char (p ! 1) in
                       if b1 < lo \<or> hi < b1 then (RuneError, 1)
                       else if sz \<le> 2 then ((p0 mod 32) * 64 + b1 mod 64, 2)
                       else (let b2 = of_char (p ! 2) in
                         if \<not> is_cont b2 then (RuneError, 1)
                         else if sz \<le> 3
                           then ((p0 mod 16) * 4096 + (b1 mod 64) * 64 + b2 mod 64, 3)
                         else (let b3 = of_char (p ! 3) in
                           if \<not> is_cont b3 then (RuneError, 1)
                           else ((p0 mod 8) * 262144 + (b1 mod 64) * 4096
                                   + (b2 mod 64) * 64 + b3 mod 64, 4)))))))"

text \<open>\<open>utf8.Valid\<close>: the bytes are a sequence of well-formed UTF-8 encodings.\<close>

fun utf8_Valid :: "string \<Rightarrow> bool" where
  "utf8_Valid [] = True"
| "utf8_Valid (c0 # t) =
     (let p0 = of_char c0 in
      if p0 < 0x80 then utf8_Valid t
      else (case utf8_first p0 of
              None \<Rightarrow> False
            | Some (sz, lo, hi) \<Rightarrow>
                if length (c0 # t) < sz then False
                else if of_char (t ! 0) < lo \<or> hi < of_char (t ! 0) then False
                else if sz = 2 then utf8_Valid (drop (sz - 1) t)
                else if \<not> is_cont (of_char (t ! 1)) then False
                else if sz = 3 then utf8_Valid (drop (sz - 1) t)
                else if \<not> is_cont (of_char (t ! 2)) then False
                else utf8_Valid (drop (sz - 1) t)))"

text \<open>
  \<open>unicode.IsSpace\<close>: in Latin-1 the characters tab, line feed, vertical tab, form
  feed, carriage return, space, U+0085 and U+00A0; beyond it the code points with the
  property White\<open>_\<close>Space.
\<close>

definition unicode_IsSpace :: "int \<Rightarrow> bool" where
  "unicode_IsSpace r =
     (if r \<le> 0xFF
      then r = 0x09 \<or> r = 0x0A \<or> r = 0x0B \<or> r = 0x0C \<or> r = 0x0D \<or> r = 0x20
             \<or> r = 0x85 \<or> r = 0xA0
      else r = 0x1680 \<or> (0x2000 \<le> r \<and> r \<le> 0x200A) \<or> r = 0x2028 \<or> r = 0x2029
             \<or> r = 0x202F \<or> r = 0x205F \<or> r = 0x3000)"

text \<open>
  \<open>bytes.TrimLeftFunc(s, f)\<close>: runes are decoded from the left and dropped while \<open>f\<close>
  holds; the result starts at the first rune for which it does not.
\<close>

fun bytes_TrimLeftFunc :: "(int \<Rightarrow> bool) \<Rightarrow> string \<Rightarrow> string" where
  "bytes_TrimLeftFunc f [] = []"
| "bytes_TrimLeftFunc f (c # t) =
     (let rw = (if of_char c < (0x80::int) then (of_char c, 1)
                else utf8_DecodeRune (c # t))
      in if \<not> f (fst rw) then c # t
         else bytes_TrimLeftFunc f (drop (snd rw - 1) t))"

text \<open>
  A byte string that \<open>bytes.TrimLeftFunc(s, unicode.IsSpace)\<close> removes whole: each rune
  decoded from it, one after the other, is white space. It is used to say what the
  trimming removes, and is no part of the program.
\<close>

fun whitespace_only :: "string \<Rightarrow> bool" where
  "whitespace_only [] = True"
| "whitespace_only (c # t) =
     (unicode_IsSpace (fst (utf8_DecodeRune (c # t)))
      \<and> whitespace_only (drop (snd (utf8_DecodeRune (c # t)) - 1) t))"

subsection \<open>Scanning lines\<close>

text \<open>
  \<open>bufio.Scanner\<close> with its default split function \<open>ScanLines\<close> and its default
  buffer: a line ends at a line feed, one trailing carriage return is dropped, a last
  line without line feed is returned when it is not empty. A line that does not fit
  into the buffer of \<open>MaxScanTokenSize\<close> bytes makes \<open>Scan\<close> return false; the loop of
  \<open>keyValuesFromLines\<close> then ends, and it never reads \<open>scanner.Err()\<close>.
\<close>

definition MaxScanTokenSize :: int where
  "MaxScanTokenSize = 64 * 1024"

definition dropCR :: "string \<Rightarrow> string" where
  "dropCR d = (if d \<noteq> [] \<and> last d = CHR 0x0D then butlast d else d)"

function scanLines :: "string \<Rightarrow> string list" where
  "scanLines d =
     (if d = [] then []
      else let i = strings_IndexByte d (CHR 0x0A)
           in if 0 \<le> i
              then (if i < MaxScanTokenSize
                    then dropCR (take (nat i) d) # scanLines (drop (nat i + 1) d)
                    else [])
              else (if int (length d) < MaxScanTokenSize then [dropCR d] else []))"
  by pat_completeness auto
termination
  by (relation "measure length") auto

text \<open>
  Whether \<open>scanner.Err()\<close> is \<open>ErrTooLong\<close> once \<open>Scan\<close> has returned false: the
  scanner met a line that does not fit into its buffer. \<open>kv.go\<close> never calls
  \<open>scanner.Err()\<close>; the function says what it would have been told.
\<close>

function scanner_ErrTooLong :: "string \<Rightarrow> bool" where
  "scanner_ErrTooLong d =
     (if d = [] then False
      else let i = strings_IndexByte d (CHR 0x0A)
           in if 0 \<le> i
              then (if i < MaxScanTokenSize
                    then scanner_ErrTooLong (drop (nat i + 1) d)
                    else True)
              else (if int (length d) < MaxScanTokenSize then False else True))"
  by pat_completeness auto
termination
  by (relation "measure length") auto

subsection \<open>Formatting\<close>

function show_nat :: "nat \<Rightarrow> string" where
  "show_nat n =
     (if n < 10 then [char_of (48 + n)]
      else show_nat (n div 10) @ [char_of (48 + n mod 10)])"
  by pat_completeness auto
termination
  by (relation "measure id") auto

fun join_sp :: "string list \<Rightarrow> string" where
  "join_sp [] = []"
| "join_sp [x] = x"
| "join_sp (x # y # ys) = x @ '' '' @ join_sp (y # ys)"

text \<open>The verb \<open>%d\<close> on a \<open>[]byte\<close>: the bytes in decimal, between brackets.\<close>

definition fmt_d_bytes :: "string \<Rightarrow> string" where
  "fmt_d_bytes b = ''['' @ join_sp (map (\<lambda>c. show_nat (of_char c)) b) @ '']''"

text \<open>The verb \<open>%v\<close> on a \<open>[]string\<close>: the strings between brackets.\<close>

definition fmt_v_strings :: "string list \<Rightarrow> string" where
  "fmt_v_strings xs = ''['' @ join_sp xs @ '']''"

section \<open>Errors\<close>

text \<open>
  One constructor for each place where \<open>kv.go\<close> builds an error, holding the arguments
  given to the format string there; \<open>External\<close> is an error handed back by a
  collaborator (loader, validator, decryption, identity parsing); \<open>Wrapped\<close> is
  \<open>errors.Wrap(err, msg)\<close>; \<open>Panic\<close> stands for a run-time panic of the Go program
  (an index out of range), which is not an error value there.
\<close>

datatype error =
    External string
  | InvalidUtf8 string string
  | MissingKeyName string
  | MissingFilePath string
  | AmbiguousSeparators
  | InvalidLiteralSource string
  | Wrapped error string
  | Panic string

section \<open>The two source parsers\<close>

definition parseFileSource :: "string \<Rightarrow> error + (string \<times> string)" where
  "parseFileSource source =
     (let numSeparators = strings_Count source (CHR ''='')
      in if numSeparators = 0 then Inr (path_Base source, source)
         else if numSeparators = 1 \<and> strings_HasPrefix source ''=''
           then Inl (MissingKeyName (strings_TrimPrefix source ''=''))
         else if numSeparators = 1 \<and> strings_HasSuffix source ''=''
           then Inl (MissingFilePath (strings_TrimSuffix source ''=''))
         else if numSeparators > 1 then Inl AmbiguousSeparators
         else (case strings_Split source (CHR ''='') of
                 k # p # _ \<Rightarrow> Inr (k, p)
               | _ \<Rightarrow> Inl (Panic ''index out of range'')))"

text \<open>The cut set of \<open>parseLiteralSource\<close>: the double quote and the single quote.\<close>

definition quote_cutset :: string where
  "quote_cutset = [CHR 0x22, CHR 0x27]"

definition parseLiteralSource :: "string \<Rightarrow> error + (string \<times> string)" where
  "parseLiteralSource source =
     (if strings_IndexByte source (CHR ''='') = 0
      then Inl (InvalidLiteralSource source)
      else let items = strings_SplitN source (CHR ''='') 2
           in (case items of
                 [k, v] \<Rightarrow> Inr (k, strings_Trim v quote_cutset)
               | _ \<Rightarrow> Inl (InvalidLiteralSource source)))"

text \<open>The text of an error, as its method \<open>Error()\<close> returns it.\<close>

fun error_Error :: "error \<Rightarrow> string" where
  "error_Error (External m) = m"
| "error_Error (InvalidUtf8 a b) =
     ''line '' @ fmt_d_bytes a @ '' has invalid utf8 bytes : '' @ b"
| "error_Error (MissingKeyName p) = ''key name for file path '' @ p @ '' missing''"
| "error_Error (MissingFilePath k) = ''file path for key name '' @ k @ '' missing''"
| "error_Error AmbiguousSeparators =
     ''key names or file paths cannot contain '' @ [CHR 0x27] @ ''='' @ [CHR 0x27]"
| "error_Error (InvalidLiteralSource s) =
     ''invalid literal source '' @ s @ '', expected key=value''"
| "error_Error (Wrapped e m) = m @ '': '' @ error_Error e"
| "error_Error (Panic m) = m"

section \<open>Data and collaborators\<close>

record types_Pair =
  Key :: string
  Value :: string

record KvPairSources =
  LiteralSources :: "string list"
  FileSources :: "string list"
  EnvSources :: "string list"
  AgeIdentitySources :: "string list"

text \<open>
  What the loader reaches outside \<open>kv.go\<close>, as the fields of one record: the two
  \<open>ifc.Loader\<close>s and the \<open>ifc.Validator\<close> of the \<open>loader\<close> struct, the process
  environment, the file system read by \<open>ioutil.ReadFile\<close>, \<open>filepath.Abs\<close>,
  \<open>age.ParseIdentities\<close>, and the three functions of package \<open>kv\<close> defined in another
  file (\<open>parseSSHIdentity\<close>, \<open>decryptValueWithAge\<close>, \<open>decryptInlineYAMLWithAge\<close>).
  An identity is a value of the type parameter \<open>'id\<close>. Within one call of \<open>Load\<close> each
  of them is taken to answer the same question the same way.
\<close>

record 'id world =
  ldr_Load :: "string \<Rightarrow> error + string"
  rootLdr_Load :: "string \<Rightarrow> error + string"
  validator_IsEnvVarName :: "string \<Rightarrow> error option"
  environ :: "string \<Rightarrow> string option"
  filepath_Abs :: "string \<Rightarrow> error + string"
  ioutil_ReadFile :: "string \<Rightarrow> error + string"
  age_ParseIdentities :: "string \<Rightarrow> error + 'id list"
  parseSSHIdentity :: "string \<Rightarrow> string \<Rightarrow> error + 'id list"
  decryptValueWithAge :: "string \<Rightarrow> 'id list \<Rightarrow> error + string"
  decryptInlineYAMLWithAge :: "string \<Rightarrow> 'id list \<Rightarrow> error + string"

text \<open>\<open>os.Getenv\<close>: the value of the variable, the empty string when it is not set.\<close>

definition os_Getenv :: "'id world \<Rightarrow> string \<Rightarrow> string" where
  "os_Getenv w key = (case environ w key of None \<Rightarrow> [] | Some v \<Rightarrow> v)"

definition utf8bom :: string where
  "utf8bom = [CHR 0xEF, CHR 0xBB, CHR 0xBF]"

text \<open>The constant \<open>armor.Header\<close> of \<open>filippo.io/age/armor\<close>.\<close>

definition armor_Header :: string where
  "armor_Header = ''-----BEGIN AGE ENCRYPTED FILE-----''"

section \<open>Env files\<close>

text \<open>
  \<open>keyValuesFromLine\<close>. The error of an invalid line is built from \<open>line\<close> and
  \<open>string(line)\<close>, the two arguments the source gives to \<open>fmt.Errorf\<close>.
\<close>

definition keyValuesFromLine :: "'id world \<Rightarrow> string \<Rightarrow> int \<Rightarrow> error + types_Pair" where
  "keyValuesFromLine w line currentLine =
     (if \<not> utf8_Valid line then Inl (InvalidUtf8 line line)
      else let line1 = (if currentLine = 0 then strings_TrimPrefix line utf8bom else line);
               line2 = bytes_TrimLeftFunc unicode_IsSpace line1
           in if length line2 = 0 \<or> hd line2 = CHR ''#''
              then Inr \<lparr>Key = [], Value = []\<rparr>
              else let data = strings_SplitN line2 (CHR ''='') 2;
                       key = hd data
                   in (case validator_IsEnvVarName w key of
                         Some err \<Rightarrow> Inl err
                       | None \<Rightarrow>
                           if length data = 2
                           then Inr \<lparr>Key = key, Value = data ! 1\<rparr>
                           else Inr \<lparr>Key = key, Value = os_Getenv w key\<rparr>))"

text \<open>The loop of \<open>keyValuesFromLines\<close> over the scanned lines.\<close>

fun keyValuesFromLines_loop ::
  "'id world \<Rightarrow> string list \<Rightarrow> int \<Rightarrow> types_Pair list \<Rightarrow> error + types_Pair list" where
  "keyValuesFromLines_loop w [] currentLine kvs = Inr kvs"
| "keyValuesFromLines_loop w (l # ls) currentLine kvs =
     (case keyValuesFromLine w l currentLine of
        Inl err \<Rightarrow> Inl err
      | Inr kv \<Rightarrow>
          if length (Key kv) = 0
          then keyValuesFromLines_loop w ls (currentLine + 1) kvs
          else keyValuesFromLines_loop w ls (currentLine + 1) (kvs @ [kv]))"

definition keyValuesFromLines :: "'id world \<Rightarrow> string \<Rightarrow> error + types_Pair list" where
  "keyValuesFromLines w content = keyValuesFromLines_loop w (scanLines content) 0 []"

text \<open>One round of the loop of \<open>keyValuesFromEnvFiles\<close>: the pairs of one env file.\<close>

definition envFilePairs :: "'id world \<Rightarrow> 'id list \<Rightarrow> string \<Rightarrow> error + types_Pair list" where
  "envFilePairs w ids p =
     (case ldr_Load w p of
        Inl err \<Rightarrow> Inl err
      | Inr content \<Rightarrow>
          (case (if strings_HasSuffix p ''.age'' then decryptValueWithAge w content ids
                 else Inr content) of
             Inl err \<Rightarrow> Inl err
           | Inr content' \<Rightarrow> keyValuesFromLines w content'))"

fun keyValuesFromEnvFiles_loop ::
  "'id world \<Rightarrow> 'id list \<Rightarrow> string list \<Rightarrow> types_Pair list \<Rightarrow> error + types_Pair list" where
  "keyValuesFromEnvFiles_loop w ids [] kvs = Inr kvs"
| "keyValuesFromEnvFiles_loop w ids (p # ps) kvs =
     (case envFilePairs w ids p of
        Inl err \<Rightarrow> Inl err
      | Inr more_kvs \<Rightarrow> keyValuesFromEnvFiles_loop w ids ps (kvs @ more_kvs))"

definition keyValuesFromEnvFiles ::
  "'id world \<Rightarrow> string list \<Rightarrow> 'id list \<Rightarrow> error + types_Pair list" where
  "keyValuesFromEnvFiles w paths ids = keyValuesFromEnvFiles_loop w ids paths []"

section \<open>Literal and file sources\<close>

text \<open>One round of the loop of \<open>keyValuesFromLiteralSources\<close>.\<close>

definition literalPair :: "'id world \<Rightarrow> 'id list \<Rightarrow> string \<Rightarrow> error + types_Pair" where
  "literalPair w ids s =
     (case parseLiteralSource s of
        Inl err \<Rightarrow> Inl err
      | Inr (k, v) \<Rightarrow>
          if strings_HasSuffix k ''.age''
          then (let k' = strings_TrimRight k ''.age''
                in (case (if strings_HasSuffix k' ''.yaml'' \<or> strings_HasSuffix k' ''.yml''
                          then decryptInlineYAMLWithAge w v ids
                          else decryptValueWithAge w v ids) of
                      Inl err \<Rightarrow> Inl err
                    | Inr content \<Rightarrow> Inr \<lparr>Key = k', Value = content\<rparr>))
          else Inr \<lparr>Key = k, Value = v\<rparr>)"

fun keyValuesFromLiteralSources_loop ::
  "'id world \<Rightarrow> 'id list \<Rightarrow> string list \<Rightarrow> types_Pair list \<Rightarrow> error + types_Pair list" where
  "keyValuesFromLiteralSources_loop w ids [] kvs = Inr kvs"
| "keyValuesFromLiteralSources_loop w ids (s # ss) kvs =
     (case literalPair w ids s of
        Inl err \<Rightarrow> Inl err
      | Inr kv \<Rightarrow> keyValuesFromLiteralSources_loop w ids ss (kvs @ [kv]))"

definition keyValuesFromLiteralSources ::
  "'id world \<Rightarrow> string list \<Rightarrow> 'id list \<Rightarrow> error + types_Pair list" where
  "keyValuesFromLiteralSources w sources ids =
     keyValuesFromLiteralSources_loop w ids sources []"

text \<open>One round of the loop of \<open>keyValuesFromFileSources\<close>.\<close>

definition filePair :: "'id world \<Rightarrow> 'id list \<Rightarrow> string \<Rightarrow> error + types_Pair" where
  "filePair w ids s =
     (case parseFileSource s of
        Inl err \<Rightarrow> Inl err
      | Inr (k, fPath) \<Rightarrow>
          (case ldr_Load w fPath of
             Inl err \<Rightarrow> Inl err
           | Inr content \<Rightarrow>
               if strings_HasSuffix fPath ''.age''
               then (let k' = strings_TrimRight k ''.age''
                     in (case (if (strings_HasSuffix k' ''.yaml''
                                    \<or> strings_HasSuffix k' ''.yml'')
                                  \<and> \<not> strings_HasPrefix content armor_Header
                               then decryptInlineYAMLWithAge w content ids
                               else decryptValueWithAge w content ids) of
                           Inl err \<Rightarrow> Inl err
                         | Inr content' \<Rightarrow> Inr \<lparr>Key = k', Value = content'\<rparr>))
               else Inr \<lparr>Key = k, Value = content\<rparr>))"

fun keyValuesFromFileSources_loop ::
  "'id world \<Rightarrow> 'id list \<Rightarrow> string list \<Rightarrow> types_Pair list \<Rightarrow> error + types_Pair list" where
  "keyValuesFromFileSources_loop w ids [] kvs = Inr kvs"
| "keyValuesFromFileSources_loop w ids (s # ss) kvs =
     (case filePair w ids s of
        Inl err \<Rightarrow> Inl err
      | Inr kv \<Rightarrow> keyValuesFromFileSources_loop w ids ss (kvs @ [kv]))"

definition keyValuesFromFileSources ::
  "'id world \<Rightarrow> string list \<Rightarrow> 'id list \<Rightarrow> error + types_Pair list" where
  "keyValuesFromFileSources w sources ids = keyValuesFromFileSources_loop w ids sources []"

section \<open>Identities\<close>

text \<open>One round of the first loop of \<open>getAgeIdentities\<close>: the identities of one file.\<close>

definition identitiesFromSource :: "'id world \<Rightarrow> string \<Rightarrow> error + 'id list" where
  "identitiesFromSource w path =
     (case filepath_Abs w path of
        Inl err \<Rightarrow> Inl err
      | Inr path' \<Rightarrow>
          (case rootLdr_Load w path' of
             Inl err \<Rightarrow> Inl err
           | Inr content \<Rightarrow> age_ParseIdentities w content))"

fun getAgeIdentities_loop :: "'id world \<Rightarrow> string list \<Rightarrow> 'id list \<Rightarrow> error + 'id list" where
  "getAgeIdentities_loop w [] ids = Inr ids"
| "getAgeIdentities_loop w (p # ps) ids =
     (case identitiesFromSource w p of
        Inl err \<Rightarrow> Inl err
      | Inr ident \<Rightarrow> getAgeIdentities_loop w ps (ids @ ident))"

text \<open>The second loop: the SSH keys of the user, skipped when unreadable.\<close>

fun sshIdentities_loop :: "'id world \<Rightarrow> string list \<Rightarrow> 'id list \<Rightarrow> 'id list" where
  "sshIdentities_loop w [] ids = ids"
| "sshIdentities_loop w (p # ps) ids =
     (case ioutil_ReadFile w p of
        Inl err \<Rightarrow> sshIdentities_loop w ps ids
      | Inr content \<Rightarrow>
          (case parseSSHIdentity w p content of
             Inl err \<Rightarrow> sshIdentities_loop w ps ids
           | Inr sshids \<Rightarrow> sshIdentities_loop w ps (ids @ sshids)))"

definition getAgeIdentities :: "'id world \<Rightarrow> string list \<Rightarrow> error + 'id list" where
  "getAgeIdentities w sources =
     (case getAgeIdentities_loop w sources [] of
        Inl err \<Rightarrow> Inl err
      | Inr ids \<Rightarrow>
          Inr (sshIdentities_loop w
                 [os_Getenv w ''HOME'' @ ''/.ssh/id_rsa'',
                  os_Getenv w ''HOME'' @ ''/.ssh/id_ed25519''] ids))"

section \<open>Load\<close>

text \<open>
  \<open>Load\<close> returns the two results of the Go function: the pair list (\<open>nil\<close> is the
  empty list) and the error (\<open>nil\<close> is \<open>None\<close>).
\<close>

definition Load :: "'id world \<Rightarrow> KvPairSources \<Rightarrow> types_Pair list \<times> error option" where
  "Load w args =
     (case getAgeIdentities w (AgeIdentitySources args) of
        Inl err \<Rightarrow>
          ([], Some (Wrapped err (''age identity source files: ''
                                   @ fmt_v_strings (AgeIdentitySources args))))
      | Inr ids \<Rightarrow>
     (case keyValuesFromEnvFiles w (EnvSources args) ids of
        Inl err \<Rightarrow>
          ([], Some (Wrapped err (''env source files: ''
                                   @ fmt_v_strings (EnvSources args))))
      | Inr pairs1 \<Rightarrow>
     (case keyValuesFromLiteralSources w (LiteralSources args) ids of
        Inl err \<Rightarrow>
          ([], Some (Wrapped err (''literal sources ''
                                   @ fmt_v_strings (LiteralSources args))))
      | Inr pairs2 \<Rightarrow>
     (case keyValuesFromFileSources w (FileSources args) ids of
        Inl err \<Rightarrow>
          ([], Some (Wrapped err (''file sources: ''
                                   @ fmt_v_strings (FileSources args))))
      | Inr pairs3 \<Rightarrow> ((([] @ pairs1) @ pairs2) @ pairs3, None)))))"

section \<open>A concrete set of collaborators\<close>

text \<open>
  A small world on which the definitions can be run: a loader that knows three files,
  a validator that refuses the empty name and names with a space, an environment with
  \<open>HOME\<close> and \<open>FOO\<close>, no SSH keys, and decryption functions that mark their result
  with the mode that produced it (\<open>V:\<close> for the whole value, \<open>Y:\<close> for inline YAML).
  Identities are numbers.
\<close>

definition demo_ldr :: "string \<Rightarrow> error + string" where
  "demo_ldr p =
     (if p = ''app.env'' then Inr (''A=1'' @ [CHR 0x0A] @ ''# c'' @ [CHR 0x0A] @ ''B=x=y'')
      else if p = ''data.age'' then Inr ''blob''
      else if p = ''cert.pem'' then Inr ''PEM''
      else Inl (External (''cannot read '' @ p)))"

definition demo_validator :: "string \<Rightarrow> error option" where
  "demo_validator k =
     (if k = [] \<or> CHR '' '' \<in> set k then Some (External (''bad name '' @ k)) else None)"

definition demo_environ :: "string \<Rightarrow> string option" where
  "demo_environ k =
     (if k = ''HOME'' then Some ''/home/u'' else if k = ''FOO'' then Some ''bar'' else None)"

definition demo_world :: "nat world" where
  "demo_world =
     \<lparr>ldr_Load = demo_ldr,
      rootLdr_Load = (\<lambda>p. if p = ''/cwd/keys.txt'' then Inr ''KEY''
                          else Inl (External (''cannot read '' @ p))),
      validator_IsEnvVarName = demo_validator,
      environ = demo_environ,
      filepath_Abs = (\<lambda>p. Inr (''/cwd/'' @ p)),
      ioutil_ReadFile = (\<lambda>p. Inl (External (''cannot read '' @ p))),
      age_ParseIdentities = (\<lambda>c. Inr [length c]),
      parseSSHIdentity = (\<lambda>p c. Inl (External ''not an SSH key'')),
      decryptValueWithAge = (\<lambda>c ids. Inr (''V:'' @ c)),
      decryptInlineYAMLWithAge = (\<lambda>c ids. Inr (''Y:'' @ c))\<rparr>"

definition demo_args :: KvPairSources where
  "demo_args =
     \<lparr>LiteralSources = [''k=v'', ''n=1''],
      FileSources = [''cert.pem''],
      EnvSources = [''app.env''],
      AgeIdentitySources = [''keys.txt'']\<rparr>"

definition demo_bad_args :: KvPairSources where
  "demo_bad_args =
     \<lparr>LiteralSources = [''k=v'', ''bad''],
      FileSources = [''cert.pem''],
      EnvSources = [''app.env''],
      AgeIdentitySources = [''keys.txt'']\<rparr>"

text \<open>
  A second world, with an env file of three lines whose second line is 65536 bytes
  long, one byte more than the scanner accepts.
\<close>

definition demo_long_content :: string where
  "demo_long_content =
     ''A=1'' @ [CHR 0x0A] @ replicate 65536 (CHR ''x'') @ [CHR 0x0A] @ ''B=2''"

definition demo_long_world :: "nat world" where
  "demo_long_world =
     demo_world\<lparr>ldr_Load := (\<lambda>p. if p = ''long.env'' then Inr demo_long_content
                                  else demo_ldr p)\<rparr>"

definition demo_long_args :: KvPairSources where
  "demo_long_args =
     \<lparr>LiteralSources = [''k=v''],
      FileSources = [''cert.pem''],
      EnvSources = [''long.env''],
      AgeIdentitySources = [''keys.txt'']\<rparr>"

section \<open>Facts about the library functions\<close>

lemma IndexByte_ge: "- 1 \<le> strings_IndexByte s c"
  by (induction s) (auto simp: Let_def)

lemma IndexByte_neg_iff: "strings_IndexByte s c < 0 \<longleftrightarrow> c \<notin> set s"
  by (induction s) (auto simp: Let_def)

lemma IndexByte_first: "c \<notin> set k \<Longrightarrow> strings_IndexByte (k @ c # v) c = int (length k)"
  by (induction k) (auto simp: Let_def)

lemma IndexByte_zero_iff: "strings_IndexByte s c = 0 \<longleftrightarrow> (\<exists>t. s = c # t)"
  using IndexByte_ge [of "tl s" c] by (cases s) (auto simp: Let_def)

lemma Count_count_list: "strings_Count s c = count_list s c"
  by (induction s) auto

lemma Count_zero_iff: "strings_Count s c = 0 \<longleftrightarrow> c \<notin> set s"
  by (induction s) auto

lemma Count_append: "strings_Count (a @ b) c = strings_Count a c + strings_Count b c"
  by (induction a) auto

lemma first_split: "c \<in> set s \<Longrightarrow> \<exists>k v. s = k @ c # v \<and> c \<notin> set k"
  by (metis split_list_first)

lemma SplitN2_present:
  "c \<notin> set k \<Longrightarrow> strings_SplitN (k @ c # v) c 2 = [k, v]"
  by (simp add: strings_SplitN_def genSplit_def Let_def IndexByte_first numeral_2_eq_2)

lemma SplitN2_absent: "c \<notin> set s \<Longrightarrow> strings_SplitN s c 2 = [s]"
  using IndexByte_neg_iff [of s c]
  by (cases s) (simp_all add: strings_SplitN_def genSplit_def Let_def del: strings_IndexByte.simps)

lemma Split_one:
  "c \<notin> set k \<Longrightarrow> c \<notin> set p \<Longrightarrow> strings_Split (k @ c # p) c = [k, p]"
  using IndexByte_neg_iff [of p c]
  by (simp add: strings_Split_def genSplit_def Let_def Count_append Count_zero_iff[THEN iffD2] IndexByte_first del: strings_IndexByte.simps)


lemma HasPrefix_single: "strings_HasPrefix s [c] \<longleftrightarrow> (\<exists>t. s = c # t)"
  by (cases s) (auto simp: strings_HasPrefix_def)

lemma HasSuffix_single: "strings_HasSuffix s [c] \<longleftrightarrow> (\<exists>t. s = t @ [c])"
proof (cases s rule: rev_cases)
  case Nil
  then show ?thesis by (simp add: strings_HasSuffix_def)
next
  case (snoc t x)
  then show ?thesis by (auto simp: strings_HasSuffix_def)
qed

lemma parseLiteralSource_split:
  assumes "k \<noteq> []" and "CHR ''='' \<notin> set k"
  shows "parseLiteralSource (k @ CHR ''='' # v) = Inr (k, strings_Trim v quote_cutset)"
proof -
  have "strings_IndexByte (k @ CHR ''='' # v) (CHR ''='') = int (length k)"
    using assms(2) by (rule IndexByte_first)
  moreover have "int (length k) \<noteq> 0" using assms(1) by simp
  ultimately show ?thesis
    using assms(2) by (simp add: parseLiteralSource_def SplitN2_present)
qed

lemma parseLiteralSource_leading:
  "parseLiteralSource (CHR ''='' # t) = Inl (InvalidLiteralSource (CHR ''='' # t))"
  by (simp add: parseLiteralSource_def)

lemma parseLiteralSource_absent:
  assumes "CHR ''='' \<notin> set s"
  shows "parseLiteralSource s = Inl (InvalidLiteralSource s)"
proof -
  have "strings_IndexByte s (CHR ''='') \<noteq> 0"
    using assms IndexByte_neg_iff [of s "CHR ''=''"] by simp
  then show ?thesis
    using assms by (simp add: parseLiteralSource_def SplitN2_absent)
qed

lemma TrimRight_decomp:
  "\<exists>r. s = strings_TrimRight s cs @ r \<and> set r \<subseteq> set cs
       \<and> (strings_TrimRight s cs = [] \<or> last (strings_TrimRight s cs) \<notin> set cs)"
proof -
  let ?P = "\<lambda>c. c \<in> set cs"
  have a: "rev s = takeWhile ?P (rev s) @ dropWhile ?P (rev s)" by simp
  have "s = rev (dropWhile ?P (rev s)) @ rev (takeWhile ?P (rev s))"
    by (metis a rev_append rev_rev_ident)
  moreover have "set (rev (takeWhile ?P (rev s))) \<subseteq> set cs"
    by (auto dest: set_takeWhileD)
  moreover have "dropWhile ?P (rev s) = [] \<or> \<not> ?P (hd (dropWhile ?P (rev s)))"
    using hd_dropWhile [of ?P "rev s"] by blast
  then have "rev (dropWhile ?P (rev s)) = [] \<or> last (rev (dropWhile ?P (rev s))) \<notin> set cs"
    by (auto simp: last_rev)
  ultimately show ?thesis unfolding strings_TrimRight_def by blast
qed

lemma TrimLeft_decomp:
  "\<exists>l. s = l @ strings_TrimLeft s cs \<and> set l \<subseteq> set cs
       \<and> (strings_TrimLeft s cs = [] \<or> hd (strings_TrimLeft s cs) \<notin> set cs)"
proof -
  let ?P = "\<lambda>c. c \<in> set cs"
  have "s = takeWhile ?P s @ dropWhile ?P s" by simp
  moreover have "set (takeWhile ?P s) \<subseteq> set cs" by (auto dest: set_takeWhileD)
  moreover have "dropWhile ?P s = [] \<or> \<not> ?P (hd (dropWhile ?P s))"
    using hd_dropWhile [of ?P s] by blast
  ultimately show ?thesis unfolding strings_TrimLeft_def by blast
qed

lemma TrimLeft_last:
  "strings_TrimLeft s cs \<noteq> [] \<Longrightarrow> last (strings_TrimLeft s cs) = last s"
  unfolding strings_TrimLeft_def
  by (metis append_is_Nil_conv last_appendR takeWhile_dropWhile_id)

lemma Trim_decomp:
  "\<exists>l r. s = l @ strings_Trim s cs @ r \<and> set l \<subseteq> set cs \<and> set r \<subseteq> set cs
       \<and> (strings_Trim s cs = []
            \<or> (hd (strings_Trim s cs) \<notin> set cs \<and> last (strings_Trim s cs) \<notin> set cs))"
proof -
  let ?m = "strings_TrimRight s cs"
  obtain r where r: "s = ?m @ r" "set r \<subseteq> set cs" "?m = [] \<or> last ?m \<notin> set cs"
    using TrimRight_decomp [of s cs] by blast
  obtain l where l: "?m = l @ strings_TrimLeft ?m cs" "set l \<subseteq> set cs"
      "strings_TrimLeft ?m cs = [] \<or> hd (strings_TrimLeft ?m cs) \<notin> set cs"
    using TrimLeft_decomp [of ?m cs] by blast
  have t: "strings_Trim s cs = strings_TrimLeft ?m cs" by (simp add: strings_Trim_def)
  have "strings_TrimLeft ?m cs \<noteq> [] \<Longrightarrow> last (strings_TrimLeft ?m cs) \<notin> set cs"
    using r(3) TrimLeft_last [of ?m cs] l(1) by (metis append_is_Nil_conv)
  then have e: "strings_Trim s cs = []
      \<or> (hd (strings_Trim s cs) \<notin> set cs \<and> last (strings_Trim s cs) \<notin> set cs)"
    using l(3) t by auto
  have "s = l @ strings_Trim s cs @ r" using r(1) l(1) t by (metis append_assoc)
  then show ?thesis using l(2) r(2) e by blast
qed

section \<open>The literal source parser\<close>

text \<open>
  Claim C8. \<open>parseLiteralSource\<close> returns an error exactly when its input starts with
  \<open>=\<close> or holds no \<open>=\<close>. In every other case the input is \<open>k=v\<close> with a non-empty
  \<open>k\<close> free of \<open>=\<close>, that is, it is cut at its first \<open>=\<close>, and the function succeeds
  with the key \<open>k\<close> and the value made from all of \<open>v\<close>, which may hold further \<open>=\<close>.
\<close>

theorem parseLiteralSource_error_iff:
  "(strings_HasPrefix s ''='' \<or> CHR ''='' \<notin> set s
      \<longrightarrow> parseLiteralSource s = Inl (InvalidLiteralSource s))
   \<and> (\<not> (strings_HasPrefix s ''='' \<or> CHR ''='' \<notin> set s)
      \<longrightarrow> (\<exists>k v. s = k @ CHR ''='' # v \<and> k \<noteq> [] \<and> CHR ''='' \<notin> set k
                 \<and> parseLiteralSource s = Inr (k, strings_Trim v quote_cutset)))"
proof (intro conjI impI)
  assume "strings_HasPrefix s ''='' \<or> CHR ''='' \<notin> set s"
  then show "parseLiteralSource s = Inl (InvalidLiteralSource s)"
    by (auto simp: HasPrefix_single parseLiteralSource_leading parseLiteralSource_absent)
next
  assume ok: "\<not> (strings_HasPrefix s ''='' \<or> CHR ''='' \<notin> set s)"
  then obtain k v where kv: "s = k @ CHR ''='' # v" "CHR ''='' \<notin> set k"
    using first_split [of "CHR ''=''" s] by auto
  have "k \<noteq> []" using ok kv(1) by (auto simp: HasPrefix_single)
  then show "\<exists>k v. s = k @ CHR ''='' # v \<and> k \<noteq> [] \<and> CHR ''='' \<notin> set k
                 \<and> parseLiteralSource s = Inr (k, strings_Trim v quote_cutset)"
    using kv parseLiteralSource_split by blast
qed

theorem parseLiteralSource_error_iff_witness:
  "parseLiteralSource ''=x'' = Inl (InvalidLiteralSource ''=x'')
   \<and> parseLiteralSource ''novalue'' = Inl (InvalidLiteralSource ''novalue'')
   \<and> (\<exists>k v. ''a=b=c'' = k @ CHR ''='' # v \<and> k \<noteq> [] \<and> CHR ''='' \<notin> set k
          \<and> parseLiteralSource ''a=b=c'' = Inr (k, strings_Trim v quote_cutset))
   \<and> parseLiteralSource ''a=b=c'' = Inr (''a'', ''b=c'')"
proof -
  have p1: "strings_HasPrefix ''=x'' ''='' \<or> CHR ''='' \<notin> set ''=x''"
    by (simp add: strings_HasPrefix_def)
  have p2: "strings_HasPrefix ''novalue'' ''='' \<or> CHR ''='' \<notin> set ''novalue''"
    by simp
  have p3: "\<not> (strings_HasPrefix ''a=b=c'' ''='' \<or> CHR ''='' \<notin> set ''a=b=c'')"
    by (simp add: strings_HasPrefix_def)
  have e: "parseLiteralSource ''a=b=c'' = Inr (''a'', ''b=c'')"
    by code_simp
  show ?thesis
    using parseLiteralSource_error_iff [of "''=x''"] parseLiteralSource_error_iff [of "''novalue''"]
      parseLiteralSource_error_iff [of "''a=b=c''"] p1 p2 p3 e
    by blast
qed

text \<open>
  Claim C10. For a non-empty key \<open>k\<close> (a key holds no \<open>=\<close>), the literal source made of
  \<open>k\<close> and one trailing \<open>=\<close> is accepted, with the empty value: an empty value is no
  error, whatever the comment above the function says.
\<close>

theorem parseLiteralSource_empty_value:
  assumes "k \<noteq> []" and "CHR ''='' \<notin> set k"
  shows "parseLiteralSource (k @ ''='') = Inr (k, [])"
  using parseLiteralSource_split [OF assms, of "[]"]
  by (simp add: strings_Trim_def strings_TrimLeft_def strings_TrimRight_def)

theorem parseLiteralSource_empty_value_witness:
  "''key'' \<noteq> [] \<and> CHR ''='' \<notin> set ''key'' \<and> parseLiteralSource ''key='' = Inr (''key'', [])"
  using parseLiteralSource_empty_value [of "''key''"] by simp

text \<open>
  Claim C5, as written, fails: the value is not relieved of one layer of quotes only.
  In \<open>k=""x""\<close> both layers go and the value is \<open>x\<close>.
\<close>

theorem parseLiteralSource_inner_quotes_counterexample:
  "parseLiteralSource (''k='' @ [CHR 0x22, CHR 0x22] @ ''x'' @ [CHR 0x22, CHR 0x22])
     = Inr (''k'', ''x'')
   \<and> parseLiteralSource (''k='' @ [CHR 0x22, CHR 0x22] @ ''x'' @ [CHR 0x22, CHR 0x22])
     \<noteq> Inr (''k'', [CHR 0x22] @ ''x'' @ [CHR 0x22])"
  by code_simp

text \<open>
  Claim C5, amended. For a literal source \<open>k=v\<close> (\<open>k\<close> non-empty and free of \<open>=\<close>),
  \<open>parseLiteralSource\<close> removes from \<open>v\<close> every leading and every trailing quote
  character, double or single, on each end by itself: the value returned is \<open>v\<close>
  without a prefix and a suffix made of quote characters only, and it neither starts
  nor ends with a quote character.
\<close>

theorem parseLiteralSource_trims_all_quotes:
  assumes "k \<noteq> []" and "CHR ''='' \<notin> set k"
  shows "\<exists>l r v'. parseLiteralSource (k @ CHR ''='' # v) = Inr (k, v')
           \<and> v = l @ v' @ r
           \<and> set l \<subseteq> {CHR 0x22, CHR 0x27} \<and> set r \<subseteq> {CHR 0x22, CHR 0x27}
           \<and> (v' = [] \<or> (hd v' \<notin> {CHR 0x22, CHR 0x27} \<and> last v' \<notin> {CHR 0x22, CHR 0x27}))"
proof -
  have q: "set quote_cutset = {CHR 0x22, CHR 0x27}" by (simp add: quote_cutset_def)
  show ?thesis
    using parseLiteralSource_split [OF assms, of v] Trim_decomp [of v quote_cutset]
    unfolding q by blast
qed

theorem parseLiteralSource_trims_all_quotes_witness:
  "\<exists>l r v'. parseLiteralSource (''k='' @ [CHR 0x22, CHR 0x27] @ ''x'' @ [CHR 0x22, CHR 0x22])
               = Inr (''k'', v')
           \<and> [CHR 0x22, CHR 0x27] @ ''x'' @ [CHR 0x22, CHR 0x22] = l @ v' @ r
           \<and> set l \<subseteq> {CHR 0x22, CHR 0x27} \<and> set r \<subseteq> {CHR 0x22, CHR 0x27}
           \<and> (v' = [] \<or> (hd v' \<notin> {CHR 0x22, CHR 0x27} \<and> last v' \<notin> {CHR 0x22, CHR 0x27}))"
  using parseLiteralSource_trims_all_quotes
          [of "''k''" "[CHR 0x22, CHR 0x27] @ ''x'' @ [CHR 0x22, CHR 0x22]"]
  by simp

section \<open>The file source parser\<close>

lemma parseFileSource_plain:
  assumes "CHR ''='' \<notin> set s"
  shows "parseFileSource s = Inr (path_Base s, s)"
  using assms by (simp add: parseFileSource_def Count_zero_iff)

lemma Count_one_split:
  assumes "CHR ''='' \<notin> set k" and "CHR ''='' \<notin> set p"
  shows "strings_Count (k @ CHR ''='' # p) (CHR ''='') = 1"
  using assms by (simp add: Count_append Count_zero_iff)

lemma parseFileSource_no_key:
  assumes "CHR ''='' \<notin> set p"
  shows "parseFileSource (CHR ''='' # p) = Inl (MissingKeyName p)"
proof -
  have "strings_Count (CHR ''='' # p) (CHR ''='') = 1"
    using Count_one_split [of "[]" p] assms by simp
  then show ?thesis
    by (simp add: parseFileSource_def HasPrefix_single strings_TrimPrefix_def)
qed

lemma parseFileSource_no_path:
  assumes "k \<noteq> []" and "CHR ''='' \<notin> set k"
  shows "parseFileSource (k @ ''='') = Inl (MissingFilePath k)"
proof -
  have c: "strings_Count (k @ ''='') (CHR ''='') = 1"
    using Count_one_split [of k "[]"] assms by simp
  have "\<not> strings_HasPrefix (k @ ''='') ''=''"
    using assms by (cases k) (auto simp: HasPrefix_single)
  moreover have "strings_HasSuffix (k @ ''='') ''=''"
    by (simp add: HasSuffix_single)
  ultimately show ?thesis
    using c by (simp add: parseFileSource_def strings_TrimSuffix_def)
qed

lemma parseFileSource_many:
  assumes "1 < count_list s (CHR ''='')"
  shows "parseFileSource s = Inl AmbiguousSeparators"
  using assms by (simp add: parseFileSource_def Count_count_list)

lemma parseFileSource_key_path:
  assumes "k \<noteq> []" and "p \<noteq> []" and "CHR ''='' \<notin> set k" and "CHR ''='' \<notin> set p"
  shows "parseFileSource (k @ CHR ''='' # p) = Inr (k, p)"
proof -
  have c: "strings_Count (k @ CHR ''='' # p) (CHR ''='') = 1"
    using Count_one_split assms by simp
  have np: "\<not> strings_HasPrefix (k @ CHR ''='' # p) ''=''"
    using assms by (cases k) (auto simp: HasPrefix_single)
  have ns: "\<not> strings_HasSuffix (k @ CHR ''='' # p) ''=''"
  proof
    assume "strings_HasSuffix (k @ CHR ''='' # p) ''=''"
    then obtain t where "k @ CHR ''='' # p = t @ ''=''" by (auto simp: HasSuffix_single)
    then have "last (k @ CHR ''='' # p) = CHR ''=''" by simp
    then have "last p = CHR ''=''" using assms(2) by simp
    then show False using assms(2,4) last_in_set by metis
  qed
  show ?thesis
    using c np ns assms by (simp add: parseFileSource_def Split_one)
qed

lemma path_Base_last_element:
  assumes "f \<noteq> []" and "CHR ''/'' \<notin> set f"
  shows "path_Base (d @ CHR ''/'' # f) = f" and "path_Base f = f"
proof -
  have l: "last f \<noteq> CHR ''/''" using assms last_in_set by metis
  have r: "rev f \<noteq> []" "hd (rev f) \<noteq> CHR ''/''" using assms l by (simp_all add: hd_rev)
  have t1: "strings_TrimRight (d @ CHR ''/'' # f) ''/'' = d @ CHR ''/'' # f"
    using r by (cases "rev f") (simp_all add: strings_TrimRight_def)
  have t2: "strings_TrimRight f ''/'' = f"
    using r by (cases "rev f") (simp_all add: strings_TrimRight_def)
  have tw: "takeWhile (\<lambda>c. c \<noteq> CHR ''/'') (rev f @ CHR ''/'' # rev d) = rev f"
    using assms(2) by (auto simp: takeWhile_tail takeWhile_eq_all_conv)
  have tw2: "takeWhile (\<lambda>c. c \<noteq> CHR ''/'') (rev f) = rev f"
    using assms(2) by (auto simp: takeWhile_eq_all_conv)
  show "path_Base (d @ CHR ''/'' # f) = f"
    by (simp add: path_Base_def t1 Let_def tw assms(1))
  show "path_Base f = f"
    by (simp add: path_Base_def t2 Let_def tw2 assms(1))
qed

text \<open>
  Claim C6. \<open>parseFileSource\<close> goes by the number of \<open>=\<close> in its input, the cases
  taken in the order of the source: with none, the result is the base name of the
  input and the input itself; with exactly one, at the start, the key name is missing
  (this is also the answer for the input \<open>=\<close> alone); with exactly one, at the end of
  an input that has a key, the file path is missing; with more than one, the input is
  refused; with exactly one elsewhere, the input is cut there into key and path.
\<close>

theorem parseFileSource_cases:
  "(CHR ''='' \<notin> set s \<longrightarrow> parseFileSource s = Inr (path_Base s, s))
   \<and> (CHR ''='' \<notin> set p \<longrightarrow> parseFileSource (CHR ''='' # p) = Inl (MissingKeyName p))
   \<and> (k \<noteq> [] \<and> CHR ''='' \<notin> set k \<longrightarrow> parseFileSource (k @ ''='') = Inl (MissingFilePath k))
   \<and> (1 < count_list s (CHR ''='') \<longrightarrow> parseFileSource s = Inl AmbiguousSeparators)
   \<and> (k \<noteq> [] \<and> p \<noteq> [] \<and> CHR ''='' \<notin> set k \<and> CHR ''='' \<notin> set p
        \<longrightarrow> parseFileSource (k @ CHR ''='' # p) = Inr (k, p))"
  using parseFileSource_plain parseFileSource_no_key parseFileSource_no_path
    parseFileSource_many parseFileSource_key_path
  by blast

theorem parseFileSource_cases_witness:
  "parseFileSource ''path/to/foo.txt'' = Inr (''foo.txt'', ''path/to/foo.txt'')
   \<and> parseFileSource ''=path'' = Inl (MissingKeyName ''path'')
   \<and> parseFileSource ''key='' = Inl (MissingFilePath ''key'')
   \<and> parseFileSource ''a=b=c'' = Inl AmbiguousSeparators
   \<and> parseFileSource ''secret=path/to/foo.txt'' = Inr (''secret'', ''path/to/foo.txt'')
   \<and> parseFileSource ''='' = Inl (MissingKeyName [])"
proof -
  have b: "path_Base ''path/to/foo.txt'' = ''foo.txt''" by code_simp
  have c: "1 < count_list ''a=b=c'' (CHR ''='')" by simp
  have 1: "parseFileSource ''path/to/foo.txt'' = Inr (''foo.txt'', ''path/to/foo.txt'')"
    using parseFileSource_cases [of "''path/to/foo.txt''"] b by simp
  have 2: "parseFileSource ''=path'' = Inl (MissingKeyName ''path'')"
    using parseFileSource_cases [of _ "''path''"] by simp
  have 3: "parseFileSource ''key='' = Inl (MissingFilePath ''key'')"
    using parseFileSource_cases [of _ _ "''key''"] by simp
  have 4: "parseFileSource ''a=b=c'' = Inl AmbiguousSeparators"
    using parseFileSource_cases [of "''a=b=c''"] c by simp
  have 5: "parseFileSource ''secret=path/to/foo.txt'' = Inr (''secret'', ''path/to/foo.txt'')"
    using parseFileSource_cases [of _ "''path/to/foo.txt''" "''secret''"] by simp
  have 6: "parseFileSource ''='' = Inl (MissingKeyName [])"
    using parseFileSource_cases [of _ "[]"] by simp
  show ?thesis using 1 2 3 4 5 6 by simp
qed

section \<open>The env-line parser\<close>

lemma RuneError_not_space: "\<not> unicode_IsSpace RuneError"
  by (simp add: unicode_IsSpace_def RuneError_def)

lemma utf8_first_size: "utf8_first b = Some (sz, lo, hi) \<Longrightarrow> sz = 2 \<or> sz = 3 \<or> sz = 4"
  by (auto simp: utf8_first_def split: if_splits)

lemma DecodeRune_ascii: "of_char c < (0x80::int) \<Longrightarrow> utf8_DecodeRune (c # t) = (of_char c, 1)"
  by (simp add: utf8_DecodeRune_def)

lemma utf8_first_ascii: "utf8_first b = Some x \<Longrightarrow> \<not> b < 0x80"
  by (auto simp: utf8_first_def split: if_splits)

lemma DecodeRune_none:
  "\<not> of_char c < (0x80::int) \<Longrightarrow> utf8_first (of_char c) = None
     \<Longrightarrow> utf8_DecodeRune (c # t) = (RuneError, 1)"
  by (simp add: utf8_DecodeRune_def)

lemma DecodeRune_short:
  "utf8_first (of_char c) = Some (sz, lo, hi) \<Longrightarrow> length t < sz - 1
     \<Longrightarrow> utf8_DecodeRune (c # t) = (RuneError, 1)"
  by (frule utf8_first_ascii, frule utf8_first_size) (auto simp: utf8_DecodeRune_def)

lemma DecodeRune_two:
  "utf8_first (of_char c) = Some (2, lo, hi) \<Longrightarrow>
   utf8_DecodeRune (c # b # t) =
     (if of_char b < lo \<or> hi < of_char b then (RuneError, 1)
      else ((of_char c mod 32) * 64 + of_char b mod 64, 2))"
  by (frule utf8_first_ascii) (simp add: utf8_DecodeRune_def Let_def)

lemma DecodeRune_three:
  "utf8_first (of_char c) = Some (3, lo, hi) \<Longrightarrow>
   utf8_DecodeRune (c # b # b' # t) =
     (if of_char b < lo \<or> hi < of_char b then (RuneError, 1)
      else if \<not> is_cont (of_char b') then (RuneError, 1)
      else ((of_char c mod 16) * 4096 + (of_char b mod 64) * 64 + of_char b' mod 64, 3))"
  by (frule utf8_first_ascii) (simp add: utf8_DecodeRune_def Let_def)

lemma DecodeRune_four:
  "utf8_first (of_char c) = Some (4, lo, hi) \<Longrightarrow>
   utf8_DecodeRune (c # b # b' # b'' # t) =
     (if of_char b < lo \<or> hi < of_char b then (RuneError, 1)
      else if \<not> is_cont (of_char b') then (RuneError, 1)
      else if \<not> is_cont (of_char b'') then (RuneError, 1)
      else ((of_char c mod 8) * 262144 + (of_char b mod 64) * 4096
              + (of_char b' mod 64) * 64 + of_char b'' mod 64, 4))"
  by (frule utf8_first_ascii) (simp add: utf8_DecodeRune_def Let_def)

lemma DecodeRune_shape:
  "utf8_DecodeRune (c # t) = (of_char c, 1) \<and> of_char c < (0x80::int)
   \<or> utf8_DecodeRune (c # t) = (RuneError, 1)
   \<or> (\<exists>sz lo hi. utf8_first (of_char c) = Some (sz, lo, hi) \<and> sz - 1 \<le> length t
         \<and> snd (utf8_DecodeRune (c # t)) = sz
         \<and> (\<forall>q. utf8_DecodeRune (c # take (sz - 1) t @ q) = utf8_DecodeRune (c # t)))"
proof (cases "of_char c < (0x80::int)")
  case True
  then show ?thesis by (simp add: DecodeRune_ascii)
next
  case False
  show ?thesis
  proof (cases "utf8_first (of_char c)")
    case None
    then show ?thesis using False by (simp add: DecodeRune_none)
  next
    case (Some a)
    obtain sz lo hi where a: "utf8_first (of_char c) = Some (sz, lo, hi)"
      using Some by (cases a) simp
    show ?thesis
    proof (cases "length t < sz - 1")
      case True
      then show ?thesis using a by (simp add: DecodeRune_short)
    next
      case long: False
      consider "sz = 2" | "sz = 3" | "sz = 4" using utf8_first_size [OF a] by blast
      then show ?thesis
      proof cases
        case 1
        then obtain b t' where t: "t = b # t'" using long by (cases t) auto
        show ?thesis using a 1 unfolding t by (auto simp: DecodeRune_two)
      next
        case 2
        then obtain b b' t' where t: "t = b # b' # t'"
          using long by (cases t; cases "tl t") auto
        show ?thesis using a 2 unfolding t by (auto simp: DecodeRune_three)
      next
        case 3
        then obtain b b' b'' t' where t: "t = b # b' # b'' # t'"
          using long by (cases t; cases "tl t"; cases "tl (tl t)") auto
        show ?thesis using a 3 unfolding t by (auto simp: DecodeRune_four)
      qed
    qed
  qed
qed

lemma DecodeRune_width_le: "snd (utf8_DecodeRune (c # t)) - 1 \<le> length t"
  using DecodeRune_shape [of c t] by auto

lemma DecodeRune_local:
  assumes "unicode_IsSpace (fst (utf8_DecodeRune (c # t)))"
  shows "utf8_DecodeRune (c # take (snd (utf8_DecodeRune (c # t)) - 1) t @ q)
           = utf8_DecodeRune (c # t)"
proof -
  have "utf8_DecodeRune (c # t) \<noteq> (RuneError, 1)"
    using assms RuneError_not_space by auto
  then consider "utf8_DecodeRune (c # t) = (of_char c, 1)" "of_char c < (0x80::int)"
    | sz where "snd (utf8_DecodeRune (c # t)) = sz"
        "\<forall>q. utf8_DecodeRune (c # take (sz - 1) t @ q) = utf8_DecodeRune (c # t)"
    using DecodeRune_shape [of c t] by blast
  then show ?thesis
  proof cases
    case 1
    then show ?thesis by (simp add: DecodeRune_ascii)
  next
    case 2
    then show ?thesis by simp
  qed
qed

lemma TrimLeftFunc_step:
  "bytes_TrimLeftFunc f (c # t) =
     (if \<not> f (fst (utf8_DecodeRune (c # t))) then c # t
      else bytes_TrimLeftFunc f (drop (snd (utf8_DecodeRune (c # t)) - 1) t))"
  by (simp add: DecodeRune_ascii Let_def)

lemma TrimLeftFunc_IsSpace_decomp:
  "\<exists>ws. s = ws @ bytes_TrimLeftFunc unicode_IsSpace s \<and> whitespace_only ws
        \<and> (bytes_TrimLeftFunc unicode_IsSpace s = []
             \<or> \<not> unicode_IsSpace (fst (utf8_DecodeRune (bytes_TrimLeftFunc unicode_IsSpace s))))"
proof (induction s rule: length_induct)
  case (1 s)
  show ?case
  proof (cases s)
    case Nil
    then show ?thesis by simp
  next
    case (Cons c t)
    let ?r = "fst (utf8_DecodeRune (c # t))"
    let ?w = "snd (utf8_DecodeRune (c # t))"
    show ?thesis
    proof (cases "unicode_IsSpace ?r")
      case False
      then have "bytes_TrimLeftFunc unicode_IsSpace s = s"
        unfolding Cons by (simp only: TrimLeftFunc_step if_True simp_thms)
      then show ?thesis using False Cons
        by (intro exI [of _ "[]"]) simp
    next
      case True
      let ?rest = "bytes_TrimLeftFunc unicode_IsSpace (drop (?w - 1) t)"
      have step: "bytes_TrimLeftFunc unicode_IsSpace s = ?rest"
        unfolding Cons using True by (simp only: TrimLeftFunc_step simp_thms if_False)
      have "length (drop (?w - 1) t) < length s" using Cons by simp
      then obtain ws where ws: "drop (?w - 1) t = ws @ ?rest" "whitespace_only ws"
          "?rest = [] \<or> \<not> unicode_IsSpace (fst (utf8_DecodeRune ?rest))"
        using 1 by blast
      define n where "n = ?w - 1"
      let ?ws = "c # take n t @ ws"
      have len: "length (take n t) = n"
        using DecodeRune_width_le [of c t] by (simp add: n_def)
      have dec: "utf8_DecodeRune ?ws = utf8_DecodeRune (c # t)"
        using DecodeRune_local [OF True, of ws] by (simp add: n_def)
      have e: "snd (utf8_DecodeRune ?ws) - 1 = n"
        unfolding dec by (simp only: n_def)
      have "drop n (take n t @ ws) = ws"
        using len by simp
      then have d: "drop (snd (utf8_DecodeRune ?ws) - 1) (take n t @ ws) = ws"
        by (simp only: e)
      have "unicode_IsSpace (fst (utf8_DecodeRune ?ws))"
        using True by (simp only: dec)
      then have "whitespace_only ?ws"
        using ws(2) d by (simp only: whitespace_only.simps simp_thms)
      moreover have "s = ?ws @ ?rest"
        using ws(1) Cons unfolding n_def
        by (metis append_Cons append_assoc append_take_drop_id)
      ultimately show ?thesis using ws(3) unfolding step by blast
    qed
  qed
qed


lemma TrimPrefix_bom:
  "strings_TrimPrefix line utf8bom = (if take 3 line = utf8bom then drop 3 line else line)"
proof -
  have len: "length utf8bom = 3" by (simp add: utf8bom_def)
  have "3 \<le> length line" if "take 3 line = utf8bom"
  proof -
    have "length (take 3 line) = 3" using that len by simp
    then show ?thesis by simp
  qed
  then show ?thesis
    unfolding strings_TrimPrefix_def strings_HasPrefix_def len by auto
qed

lemma keyValuesFromLine_rest:
  assumes "utf8_Valid line"
    and "rest = bytes_TrimLeftFunc unicode_IsSpace
                  (if i = 0 then strings_TrimPrefix line utf8bom else line)"
  shows "keyValuesFromLine w line i =
     (if rest = [] \<or> hd rest = CHR ''#'' then Inr \<lparr>Key = [], Value = []\<rparr>
      else (case validator_IsEnvVarName w (hd (strings_SplitN rest (CHR ''='') 2)) of
              Some err \<Rightarrow> Inl err
            | None \<Rightarrow>
                if length (strings_SplitN rest (CHR ''='') 2) = 2
                then Inr \<lparr>Key = hd (strings_SplitN rest (CHR ''='') 2),
                         Value = strings_SplitN rest (CHR ''='') 2 ! 1\<rparr>
                else Inr \<lparr>Key = hd (strings_SplitN rest (CHR ''='') 2),
                         Value = os_Getenv w (hd (strings_SplitN rest (CHR ''='') 2))\<rparr>))"
  unfolding assms(2) keyValuesFromLine_def Let_def
  by (simp only: assms(1) length_0_conv simp_thms if_False)

lemma keyValuesFromLine_skip:
  assumes "utf8_Valid line"
    and "rest = bytes_TrimLeftFunc unicode_IsSpace
                  (if i = 0 then strings_TrimPrefix line utf8bom else line)"
    and "rest = [] \<or> hd rest = CHR ''#''"
  shows "keyValuesFromLine w line i = Inr \<lparr>Key = [], Value = []\<rparr>"
  using assms(3) by (simp only: keyValuesFromLine_rest [OF assms(1,2)] if_True)

lemma keyValuesFromLine_no_equals:
  assumes "utf8_Valid line"
    and "rest = bytes_TrimLeftFunc unicode_IsSpace
                  (if i = 0 then strings_TrimPrefix line utf8bom else line)"
    and "rest \<noteq> []" and "hd rest \<noteq> CHR ''#''" and "CHR ''='' \<notin> set rest"
  shows "keyValuesFromLine w line i =
           (case validator_IsEnvVarName w rest of
              Some err \<Rightarrow> Inl err
            | None \<Rightarrow> Inr \<lparr>Key = rest, Value = os_Getenv w rest\<rparr>)"
proof -
  have sp: "strings_SplitN rest (CHR ''='') 2 = [rest]"
    using assms(5) by (rule SplitN2_absent)
  show ?thesis
    using assms(3,4) unfolding keyValuesFromLine_rest [OF assms(1,2)] sp
    by (simp split: option.splits)
qed

lemma keyValuesFromLine_equals:
  assumes "utf8_Valid line"
    and "rest = bytes_TrimLeftFunc unicode_IsSpace
                  (if i = 0 then strings_TrimPrefix line utf8bom else line)"
    and "hd rest \<noteq> CHR ''#''" and "rest = k @ CHR ''='' # v" and "CHR ''='' \<notin> set k"
  shows "keyValuesFromLine w line i =
           (case validator_IsEnvVarName w k of
              Some err \<Rightarrow> Inl err
            | None \<Rightarrow> Inr \<lparr>Key = k, Value = v\<rparr>)"
proof -
  have sp: "strings_SplitN rest (CHR ''='') 2 = [k, v]"
    unfolding assms(4) using assms(5) by (rule SplitN2_present)
  have ne: "rest \<noteq> []" using assms(4) by simp
  show ?thesis
    using assms(3) ne unfolding keyValuesFromLine_rest [OF assms(1,2)] sp
    by (simp split: option.splits)
qed

lemma DecodeRune_bom: "utf8_DecodeRune (utf8bom @ s) = (0xFEFF, 3)"
  by (simp add: utf8_DecodeRune_def utf8_first_def is_cont_def utf8bom_def)

lemma TrimLeftFunc_bom: "bytes_TrimLeftFunc unicode_IsSpace (utf8bom @ s) = utf8bom @ s"
proof -
  have "\<not> unicode_IsSpace (fst (utf8_DecodeRune (utf8bom @ s)))"
    by (simp add: DecodeRune_bom unicode_IsSpace_def)
  then show ?thesis
    using TrimLeftFunc_step [of unicode_IsSpace "CHR 0xEF" "[CHR 0xBB, CHR 0xBF] @ s"]
    by (simp add: utf8bom_def)
qed

lemma keyValuesFromLine_bom_later_line:
  "keyValuesFromLine demo_world (utf8bom @ ''FOO=1'') 2
     = Inr \<lparr>Key = utf8bom @ ''FOO'', Value = ''1''\<rparr>"
proof -
  have v: "utf8_Valid (utf8bom @ ''FOO=1'')" by code_simp
  have r: "utf8bom @ ''FOO=1'' = bytes_TrimLeftFunc unicode_IsSpace
             (if (2::int) = 0 then strings_TrimPrefix (utf8bom @ ''FOO=1'') utf8bom
              else utf8bom @ ''FOO=1'')"
    by (simp add: TrimLeftFunc_bom)
  have h: "hd (utf8bom @ ''FOO=1'') \<noteq> CHR ''#''" by (simp add: utf8bom_def)
  have k: "CHR ''='' \<notin> set (utf8bom @ ''FOO'')" by (simp add: utf8bom_def)
  have "validator_IsEnvVarName demo_world (utf8bom @ ''FOO'') = None"
    by (simp add: demo_world_def demo_validator_def utf8bom_def)
  then show ?thesis
    using keyValuesFromLine_equals [OF v r h _ k, of "''1''" demo_world] by simp
qed

text \<open>
  Claim C7, as written, fails: it speaks of every line, and a line that is not valid
  UTF-8 is refused before anything is stripped. The line made of \<open>#\<close> and the byte
  \<open>0xFF\<close> has nothing to strip and begins with \<open>#\<close>, yet the parser returns an error
  for it and not the skip marker.
\<close>

theorem keyValuesFromLine_comment_counterexample:
  "bytes_TrimLeftFunc unicode_IsSpace [CHR ''#'', CHR 0xFF] = [CHR ''#'', CHR 0xFF]
   \<and> keyValuesFromLine demo_world [CHR ''#'', CHR 0xFF] 0
       = Inl (InvalidUtf8 [CHR ''#'', CHR 0xFF] [CHR ''#'', CHR 0xFF])
   \<and> keyValuesFromLine demo_world [CHR ''#'', CHR 0xFF] 0 \<noteq> Inr \<lparr>Key = [], Value = []\<rparr>"
  by code_simp

text \<open>
  Claim C7, amended. For every env-file line that is valid UTF-8: the parser removes
  a leading byte-order mark only when the line index is 0, then removes all leading
  Unicode white space (\<open>ws\<close> below, with \<open>rest\<close> not starting with white space). If
  \<open>rest\<close> is empty or begins with \<open>#\<close>, the skip marker is returned (empty key, no
  error). Otherwise the key is the part of \<open>rest\<close> before its first \<open>=\<close>, or all of
  \<open>rest\<close> without one; the validator's error is returned if it refuses the key; and
  if it accepts, the pair returned has as value everything after the first \<open>=\<close>
  (further \<open>=\<close> included) or, without \<open>=\<close>, the value of the environment variable
  named by the key, the empty string when it is not set.
\<close>

theorem keyValuesFromLine_valid_line:
  assumes "utf8_Valid line"
  shows "\<exists>ws rest.
       (if i = 0 \<and> take 3 line = utf8bom then drop 3 line else line) = ws @ rest
     \<and> whitespace_only ws
     \<and> (rest = [] \<or> \<not> unicode_IsSpace (fst (utf8_DecodeRune rest)))
     \<and> (rest = [] \<or> hd rest = CHR ''#''
          \<longrightarrow> keyValuesFromLine w line i = Inr \<lparr>Key = [], Value = []\<rparr>)
     \<and> (rest \<noteq> [] \<and> hd rest \<noteq> CHR ''#'' \<and> CHR ''='' \<notin> set rest
          \<longrightarrow> keyValuesFromLine w line i =
                (case validator_IsEnvVarName w rest of
                   Some err \<Rightarrow> Inl err
                 | None \<Rightarrow> Inr \<lparr>Key = rest,
                               Value = (case environ w rest of None \<Rightarrow> [] | Some x \<Rightarrow> x)\<rparr>))
     \<and> (\<forall>k v. hd rest \<noteq> CHR ''#'' \<and> rest = k @ CHR ''='' # v \<and> CHR ''='' \<notin> set k
          \<longrightarrow> keyValuesFromLine w line i =
                (case validator_IsEnvVarName w k of
                   Some err \<Rightarrow> Inl err
                 | None \<Rightarrow> Inr \<lparr>Key = k, Value = v\<rparr>))"
proof -
  define line1 where "line1 = (if i = 0 then strings_TrimPrefix line utf8bom else line)"
  define rest where "rest = bytes_TrimLeftFunc unicode_IsSpace line1"
  have l1: "line1 = (if i = 0 \<and> take 3 line = utf8bom then drop 3 line else line)"
    by (simp add: line1_def TrimPrefix_bom)
  have r: "rest = bytes_TrimLeftFunc unicode_IsSpace
                    (if i = 0 then strings_TrimPrefix line utf8bom else line)"
    by (simp add: rest_def line1_def)
  obtain ws where ws: "line1 = ws @ rest" "whitespace_only ws"
      "rest = [] \<or> \<not> unicode_IsSpace (fst (utf8_DecodeRune rest))"
    using TrimLeftFunc_IsSpace_decomp [of line1] unfolding rest_def by blast
  have a: "rest = [] \<or> hd rest = CHR ''#''
          \<longrightarrow> keyValuesFromLine w line i = Inr \<lparr>Key = [], Value = []\<rparr>"
    using keyValuesFromLine_skip [OF assms r] by blast
  have b: "rest \<noteq> [] \<and> hd rest \<noteq> CHR ''#'' \<and> CHR ''='' \<notin> set rest
          \<longrightarrow> keyValuesFromLine w line i =
                (case validator_IsEnvVarName w rest of
                   Some err \<Rightarrow> Inl err
                 | None \<Rightarrow> Inr \<lparr>Key = rest,
                               Value = (case environ w rest of None \<Rightarrow> [] | Some x \<Rightarrow> x)\<rparr>)"
    using keyValuesFromLine_no_equals [OF assms r, of w, unfolded os_Getenv_def] by blast
  have c: "\<forall>k v. hd rest \<noteq> CHR ''#'' \<and> rest = k @ CHR ''='' # v \<and> CHR ''='' \<notin> set k
          \<longrightarrow> keyValuesFromLine w line i =
                (case validator_IsEnvVarName w k of
                   Some err \<Rightarrow> Inl err
                 | None \<Rightarrow> Inr \<lparr>Key = k, Value = v\<rparr>)"
    using keyValuesFromLine_equals [OF assms r] by blast
  have d: "(if i = 0 \<and> take 3 line = utf8bom then drop 3 line else line) = ws @ rest"
    using ws(1) l1 by simp
  show ?thesis
    by (intro exI [of _ ws] exI [of _ rest] conjI) (rule d ws(2) ws(3) a b c)+
qed


theorem keyValuesFromLine_valid_line_witness:
  "utf8_Valid (utf8bom @ [CHR 0xC2, CHR 0xA0, CHR 0x09] @ ''FOO'')
   \<and> (\<exists>ws rest.
       (if (0::int) = 0 \<and> take 3 (utf8bom @ [CHR 0xC2, CHR 0xA0, CHR 0x09] @ ''FOO'') = utf8bom
        then drop 3 (utf8bom @ [CHR 0xC2, CHR 0xA0, CHR 0x09] @ ''FOO'') else utf8bom @ [CHR 0xC2, CHR 0xA0, CHR 0x09] @ ''FOO'') = ws @ rest
     \<and> whitespace_only ws
     \<and> (rest = [] \<or> \<not> unicode_IsSpace (fst (utf8_DecodeRune rest)))
     \<and> (rest = [] \<or> hd rest = CHR ''#''
          \<longrightarrow> keyValuesFromLine demo_world (utf8bom @ [CHR 0xC2, CHR 0xA0, CHR 0x09] @ ''FOO'') 0 = Inr \<lparr>Key = [], Value = []\<rparr>)
     \<and> (rest \<noteq> [] \<and> hd rest \<noteq> CHR ''#'' \<and> CHR ''='' \<notin> set rest
          \<longrightarrow> keyValuesFromLine demo_world (utf8bom @ [CHR 0xC2, CHR 0xA0, CHR 0x09] @ ''FOO'') 0 =
                (case validator_IsEnvVarName demo_world rest of
                   Some err \<Rightarrow> Inl err
                 | None \<Rightarrow> Inr \<lparr>Key = rest,
                               Value = (case environ demo_world rest of
                                          None \<Rightarrow> [] | Some x \<Rightarrow> x)\<rparr>))
     \<and> (\<forall>k v. hd rest \<noteq> CHR ''#'' \<and> rest = k @ CHR ''='' # v \<and> CHR ''='' \<notin> set k
          \<longrightarrow> keyValuesFromLine demo_world (utf8bom @ [CHR 0xC2, CHR 0xA0, CHR 0x09] @ ''FOO'') 0 =
                (case validator_IsEnvVarName demo_world k of
                   Some err \<Rightarrow> Inl err
                 | None \<Rightarrow> Inr \<lparr>Key = k, Value = v\<rparr>)))
   \<and> keyValuesFromLine demo_world (utf8bom @ [CHR 0xC2, CHR 0xA0, CHR 0x09] @ ''FOO'') 0 = Inr \<lparr>Key = ''FOO'', Value = ''bar''\<rparr>
   \<and> keyValuesFromLine demo_world ''FOO=bar=baz'' 1 = Inr \<lparr>Key = ''FOO'', Value = ''bar=baz''\<rparr>
   \<and> keyValuesFromLine demo_world ''UNSET'' 1 = Inr \<lparr>Key = ''UNSET'', Value = []\<rparr>
   \<and> keyValuesFromLine demo_world ''  # comment'' 1 = Inr \<lparr>Key = [], Value = []\<rparr>"
proof -
  have v: "utf8_Valid (utf8bom @ [CHR 0xC2, CHR 0xA0, CHR 0x09] @ ''FOO'')" by code_simp
  have e1: "keyValuesFromLine demo_world (utf8bom @ [CHR 0xC2, CHR 0xA0, CHR 0x09] @ ''FOO'') 0
              = Inr \<lparr>Key = ''FOO'', Value = ''bar''\<rparr>" by code_simp
  have e3: "keyValuesFromLine demo_world ''FOO=bar=baz'' 1
              = Inr \<lparr>Key = ''FOO'', Value = ''bar=baz''\<rparr>" by code_simp
  have e4: "keyValuesFromLine demo_world ''UNSET'' 1 = Inr \<lparr>Key = ''UNSET'', Value = []\<rparr>"
    by code_simp
  have e5: "keyValuesFromLine demo_world ''  # comment'' 1 = Inr \<lparr>Key = [], Value = []\<rparr>"
    by code_simp
  note t = keyValuesFromLine_valid_line [OF v, of 0 demo_world]
  show ?thesis
    by (intro conjI v e1 e3 e4 e5 t)
qed

section \<open>Load\<close>

lemma literal_loop_Inr:
  "keyValuesFromLiteralSources_loop w ids ss kvs = Inr out \<Longrightarrow>
     \<exists>ps. map (literalPair w ids) ss = map Inr ps \<and> out = kvs @ ps"
proof (induction ss arbitrary: kvs)
  case Nil
  then show ?case by simp
next
  case (Cons s ss)
  then obtain kv where kv: "literalPair w ids s = Inr kv"
    and rest: "keyValuesFromLiteralSources_loop w ids ss (kvs @ [kv]) = Inr out"
    by (auto split: sum.splits)
  obtain ps where ps: "map (literalPair w ids) ss = map Inr ps" "out = (kvs @ [kv]) @ ps"
    using Cons.IH [OF rest] by blast
  have "map (literalPair w ids) (s # ss) = map Inr (kv # ps) \<and> out = kvs @ kv # ps"
    using kv ps by simp
  then show ?case by blast
qed

lemma env_loop_Inr:
  "keyValuesFromEnvFiles_loop w ids ps kvs = Inr out \<Longrightarrow>
     \<exists>pss. map (envFilePairs w ids) ps = map Inr pss \<and> out = kvs @ concat pss"
proof (induction ps arbitrary: kvs)
  case Nil
  then show ?case by simp
next
  case (Cons p ps)
  then obtain m where m: "envFilePairs w ids p = Inr m"
    and rest: "keyValuesFromEnvFiles_loop w ids ps (kvs @ m) = Inr out"
    by (auto split: sum.splits)
  obtain pss where pss: "map (envFilePairs w ids) ps = map Inr pss" "out = (kvs @ m) @ concat pss"
    using Cons.IH [OF rest] by blast
  have "map (envFilePairs w ids) (p # ps) = map Inr (m # pss) \<and> out = kvs @ concat (m # pss)"
    using m pss by simp
  then show ?case by blast
qed


lemma file_loop_Inr:
  "keyValuesFromFileSources_loop w ids ss kvs = Inr out \<Longrightarrow>
     \<exists>ps. map (filePair w ids) ss = map Inr ps \<and> out = kvs @ ps"
proof (induction ss arbitrary: kvs)
  case Nil
  then show ?case by simp
next
  case (Cons s ss)
  then obtain kv where kv: "filePair w ids s = Inr kv"
    and rest: "keyValuesFromFileSources_loop w ids ss (kvs @ [kv]) = Inr out"
    by (auto split: sum.splits)
  obtain ps where ps: "map (filePair w ids) ss = map Inr ps" "out = (kvs @ [kv]) @ ps"
    using Cons.IH [OF rest] by blast
  have "map (filePair w ids) (s # ss) = map Inr (kv # ps) \<and> out = kvs @ kv # ps"
    using kv ps by simp
  then show ?case by blast
qed

lemma literal_loop_Inl:
  "keyValuesFromLiteralSources_loop w ids ss kvs = Inl e \<Longrightarrow>
     \<exists>s\<in>set ss. literalPair w ids s = Inl e"
  by (induction ss arbitrary: kvs) (auto split: sum.splits)

lemma literal_loop_fails:
  "s \<in> set ss \<Longrightarrow> isl (literalPair w ids s) \<Longrightarrow>
     isl (keyValuesFromLiteralSources_loop w ids ss kvs)"
  by (induction ss arbitrary: kvs) (auto split: sum.splits)

lemma file_loop_Inl:
  "keyValuesFromFileSources_loop w ids ss kvs = Inl e \<Longrightarrow>
     \<exists>s\<in>set ss. filePair w ids s = Inl e"
  by (induction ss arbitrary: kvs) (auto split: sum.splits)

lemma file_loop_fails:
  "s \<in> set ss \<Longrightarrow> isl (filePair w ids s) \<Longrightarrow>
     isl (keyValuesFromFileSources_loop w ids ss kvs)"
  by (induction ss arbitrary: kvs) (auto split: sum.splits)

lemma env_loop_Inl:
  "keyValuesFromEnvFiles_loop w ids ps kvs = Inl e \<Longrightarrow>
     \<exists>p\<in>set ps. envFilePairs w ids p = Inl e"
  by (induction ps arbitrary: kvs) (auto split: sum.splits)

lemma env_loop_fails:
  "p \<in> set ps \<Longrightarrow> isl (envFilePairs w ids p) \<Longrightarrow>
     isl (keyValuesFromEnvFiles_loop w ids ps kvs)"
  by (induction ps arbitrary: kvs) (auto split: sum.splits)

lemma identity_loop_Inl:
  "getAgeIdentities_loop w ps ids = Inl e \<Longrightarrow>
     \<exists>p\<in>set ps. identitiesFromSource w p = Inl e"
  by (induction ps arbitrary: ids) (auto split: sum.splits)

lemma identity_loop_fails:
  "p \<in> set ps \<Longrightarrow> isl (identitiesFromSource w p) \<Longrightarrow>
     isl (getAgeIdentities_loop w ps ids)"
  by (induction ps arbitrary: ids) (auto split: sum.splits)


lemma getAgeIdentities_Inl:
  assumes "getAgeIdentities w ps = Inl e"
  shows "\<exists>p\<in>set ps. identitiesFromSource w p = Inl e"
proof -
  have "getAgeIdentities_loop w ps [] = Inl e"
    using assms by (simp add: getAgeIdentities_def split: sum.splits)
  then show ?thesis by (rule identity_loop_Inl)
qed

lemma getAgeIdentities_fails:
  assumes "p \<in> set ps" and "isl (identitiesFromSource w p)"
  shows "isl (getAgeIdentities w ps)"
proof -
  have "isl (getAgeIdentities_loop w ps [])"
    using assms by (rule identity_loop_fails)
  then show ?thesis by (auto simp: getAgeIdentities_def isl_def)
qed

lemma Load_identities_fail:
  assumes "getAgeIdentities w (AgeIdentitySources a) = Inl e"
  shows "Load w a = ([], Some (Wrapped e (''age identity source files: ''
                                  @ fmt_v_strings (AgeIdentitySources a))))"
  using assms by (simp add: Load_def)

lemma Load_env_fail:
  assumes "getAgeIdentities w (AgeIdentitySources a) = Inr ids"
    and "keyValuesFromEnvFiles w (EnvSources a) ids = Inl e"
  shows "Load w a = ([], Some (Wrapped e (''env source files: ''
                                  @ fmt_v_strings (EnvSources a))))"
  using assms by (simp add: Load_def)

lemma Load_literal_fail:
  assumes "getAgeIdentities w (AgeIdentitySources a) = Inr ids"
    and "keyValuesFromEnvFiles w (EnvSources a) ids = Inr pairs1"
    and "keyValuesFromLiteralSources w (LiteralSources a) ids = Inl e"
  shows "Load w a = ([], Some (Wrapped e (''literal sources ''
                                  @ fmt_v_strings (LiteralSources a))))"
  using assms by (simp add: Load_def)

lemma Load_file_fail:
  assumes "getAgeIdentities w (AgeIdentitySources a) = Inr ids"
    and "keyValuesFromEnvFiles w (EnvSources a) ids = Inr pairs1"
    and "keyValuesFromLiteralSources w (LiteralSources a) ids = Inr pairs2"
    and "keyValuesFromFileSources w (FileSources a) ids = Inl e"
  shows "Load w a = ([], Some (Wrapped e (''file sources: ''
                                  @ fmt_v_strings (FileSources a))))"
  using assms by (simp add: Load_def)

lemma Load_success:
  assumes "getAgeIdentities w (AgeIdentitySources a) = Inr ids"
    and "keyValuesFromEnvFiles w (EnvSources a) ids = Inr pairs1"
    and "keyValuesFromLiteralSources w (LiteralSources a) ids = Inr pairs2"
    and "keyValuesFromFileSources w (FileSources a) ids = Inr pairs3"
  shows "Load w a = (pairs1 @ pairs2 @ pairs3, None)"
  using assms by (simp add: Load_def)

lemma Load_None_cases:
  assumes "snd (Load w a) = None"
  shows "\<exists>ids pairs1 pairs2 pairs3.
           getAgeIdentities w (AgeIdentitySources a) = Inr ids
         \<and> keyValuesFromEnvFiles w (EnvSources a) ids = Inr pairs1
         \<and> keyValuesFromLiteralSources w (LiteralSources a) ids = Inr pairs2
         \<and> keyValuesFromFileSources w (FileSources a) ids = Inr pairs3"
  using assms by (simp add: Load_def split: sum.splits)

text \<open>
  Claim C1. Whenever \<open>Load\<close> succeeds, the list it returns is the pairs of the env
  files, then the pairs of the literal sources, then the pairs of the file sources.
  Inside each part the order is that of the input list: the env part is the pairs of
  the first env file, then those of the second, and so on; the \<open>i\<close>-th pair of the
  literal part comes from the \<open>i\<close>-th literal source, and the same for file sources.
\<close>

theorem Load_order:
  assumes "snd (Load w a) = None"
  shows "\<exists>ids envs lits files.
      getAgeIdentities w (AgeIdentitySources a) = Inr ids
    \<and> map (envFilePairs w ids) (EnvSources a) = map Inr envs
    \<and> map (literalPair w ids) (LiteralSources a) = map Inr lits
    \<and> map (filePair w ids) (FileSources a) = map Inr files
    \<and> keyValuesFromEnvFiles w (EnvSources a) ids = Inr (concat envs)
    \<and> keyValuesFromLiteralSources w (LiteralSources a) ids = Inr lits
    \<and> keyValuesFromFileSources w (FileSources a) ids = Inr files
    \<and> fst (Load w a) = concat envs @ lits @ files"
proof -
  obtain ids pairs1 pairs2 pairs3 where
    i: "getAgeIdentities w (AgeIdentitySources a) = Inr ids" and
    e: "keyValuesFromEnvFiles w (EnvSources a) ids = Inr pairs1" and
    l: "keyValuesFromLiteralSources w (LiteralSources a) ids = Inr pairs2" and
    f: "keyValuesFromFileSources w (FileSources a) ids = Inr pairs3"
    using Load_None_cases [OF assms] by blast
  obtain envs where envs: "map (envFilePairs w ids) (EnvSources a) = map Inr envs"
      "pairs1 = concat envs"
    using env_loop_Inr [of w ids "EnvSources a" "[]" pairs1] e
    by (auto simp: keyValuesFromEnvFiles_def)
  obtain lits where lits: "map (literalPair w ids) (LiteralSources a) = map Inr lits"
      "pairs2 = lits"
    using literal_loop_Inr [of w ids "LiteralSources a" "[]" pairs2] l
    by (auto simp: keyValuesFromLiteralSources_def)
  obtain files where files: "map (filePair w ids) (FileSources a) = map Inr files"
      "pairs3 = files"
    using file_loop_Inr [of w ids "FileSources a" "[]" pairs3] f
    by (auto simp: keyValuesFromFileSources_def)
  have "fst (Load w a) = concat envs @ lits @ files"
    using Load_success [OF i e l f] envs(2) lits(2) files(2) by simp
  then show ?thesis
    using i e l f envs lits files by blast
qed


theorem Load_order_witness:
  "snd (Load demo_world demo_args) = None
   \<and> (\<exists>ids envs lits files.
      getAgeIdentities demo_world (AgeIdentitySources demo_args) = Inr ids
    \<and> map (envFilePairs demo_world ids) (EnvSources demo_args) = map Inr envs
    \<and> map (literalPair demo_world ids) (LiteralSources demo_args) = map Inr lits
    \<and> map (filePair demo_world ids) (FileSources demo_args) = map Inr files
    \<and> keyValuesFromEnvFiles demo_world (EnvSources demo_args) ids = Inr (concat envs)
    \<and> keyValuesFromLiteralSources demo_world (LiteralSources demo_args) ids = Inr lits
    \<and> keyValuesFromFileSources demo_world (FileSources demo_args) ids = Inr files
    \<and> fst (Load demo_world demo_args) = concat envs @ lits @ files)
   \<and> fst (Load demo_world demo_args) =
        [\<lparr>Key = ''A'', Value = ''1''\<rparr>, \<lparr>Key = ''B'', Value = ''x=y''\<rparr>,
         \<lparr>Key = ''k'', Value = ''v''\<rparr>, \<lparr>Key = ''n'', Value = ''1''\<rparr>,
         \<lparr>Key = ''cert.pem'', Value = ''PEM''\<rparr>]"
proof -
  have h: "snd (Load demo_world demo_args) = None" by code_simp
  have v: "fst (Load demo_world demo_args) =
        [\<lparr>Key = ''A'', Value = ''1''\<rparr>, \<lparr>Key = ''B'', Value = ''x=y''\<rparr>,
         \<lparr>Key = ''k'', Value = ''v''\<rparr>, \<lparr>Key = ''n'', Value = ''1''\<rparr>,
         \<lparr>Key = ''cert.pem'', Value = ''PEM''\<rparr>]" by code_simp
  note t = Load_order [OF h]
  show ?thesis by (intro conjI h v t)
qed

text \<open>
  The errors that do reach the caller. An unreadable file, a failed decryption, a
  line or a source that does not parse make the round of the loop concerned return
  an error.
\<close>

lemma envFilePairs_unreadable:
  "ldr_Load w p = Inl e \<Longrightarrow> envFilePairs w ids p = Inl e"
  by (simp add: envFilePairs_def)

lemma envFilePairs_undecryptable:
  "ldr_Load w p = Inr c \<Longrightarrow> strings_HasSuffix p ''.age'' \<Longrightarrow>
     decryptValueWithAge w c ids = Inl e \<Longrightarrow> envFilePairs w ids p = Inl e"
  by (simp add: envFilePairs_def)

lemma keyValuesFromLines_loop_bad_line:
  "keyValuesFromLine w l (n + int (length pre)) = Inl e \<Longrightarrow>
   \<forall>i < length pre. \<not> isl (keyValuesFromLine w (pre ! i) (n + int i)) \<Longrightarrow>
   keyValuesFromLines_loop w (pre @ l # post) n kvs = Inl e"
proof (induction pre arbitrary: n kvs)
  case Nil
  then show ?case by simp
next
  case (Cons x pre)
  have x: "\<not> isl (keyValuesFromLine w x n)" using Cons.prems(2) by fastforce
  then obtain kv where kv: "keyValuesFromLine w x n = Inr kv"
    by (cases "keyValuesFromLine w x n") auto
  have a: "keyValuesFromLine w l ((n + 1) + int (length pre)) = Inl e"
    using Cons.prems(1) by (simp add: algebra_simps)
  have b: "\<forall>i < length pre. \<not> isl (keyValuesFromLine w (pre ! i) ((n + 1) + int i))"
  proof (intro allI impI)
    fix i assume "i < length pre"
    then have "\<not> isl (keyValuesFromLine w ((x # pre) ! Suc i) (n + int (Suc i)))"
      using Cons.prems(2) by (metis Suc_less_eq length_Cons)
    then show "\<not> isl (keyValuesFromLine w (pre ! i) ((n + 1) + int i))"
      by (simp add: algebra_simps)
  qed
  show ?case
    using Cons.IH [OF a b] kv by simp
qed

lemma literalPair_unparsable:
  "parseLiteralSource s = Inl e \<Longrightarrow> literalPair w ids s = Inl e"
  by (simp add: literalPair_def)

lemma filePair_unparsable:
  "parseFileSource s = Inl e \<Longrightarrow> filePair w ids s = Inl e"
  by (simp add: filePair_def)

lemma filePair_unreadable:
  "parseFileSource s = Inr (k, p) \<Longrightarrow> ldr_Load w p = Inl e \<Longrightarrow> filePair w ids s = Inl e"
  by (simp add: filePair_def)

lemma identitiesFromSource_unreadable:
  "filepath_Abs w p = Inr p' \<Longrightarrow> rootLdr_Load w p' = Inl e \<Longrightarrow>
     identitiesFromSource w p = Inl e"
  by (simp add: identitiesFromSource_def)

text \<open>
  Whenever a round of one of the four loops returns an error, \<open>Load\<close> returns the
  empty (nil) pair list and the error of a failing round, wrapped with the name of
  its category and the list of all inputs of that category.
\<close>

lemma Load_error:
  assumes "(\<exists>p\<in>set (AgeIdentitySources a). isl (identitiesFromSource w p))
     \<or> (\<exists>ids. getAgeIdentities w (AgeIdentitySources a) = Inr ids
           \<and> ((\<exists>p\<in>set (EnvSources a). isl (envFilePairs w ids p))
              \<or> (\<exists>s\<in>set (LiteralSources a). isl (literalPair w ids s))
              \<or> (\<exists>s\<in>set (FileSources a). isl (filePair w ids s))))"
  shows "fst (Load w a) = []
     \<and> (\<exists>e.
          (snd (Load w a) = Some (Wrapped e (''age identity source files: ''
                                    @ fmt_v_strings (AgeIdentitySources a)))
             \<and> (\<exists>p\<in>set (AgeIdentitySources a). identitiesFromSource w p = Inl e))
        \<or> (snd (Load w a) = Some (Wrapped e (''env source files: ''
                                    @ fmt_v_strings (EnvSources a)))
             \<and> (\<exists>ids. getAgeIdentities w (AgeIdentitySources a) = Inr ids
                   \<and> (\<exists>p\<in>set (EnvSources a). envFilePairs w ids p = Inl e)))
        \<or> (snd (Load w a) = Some (Wrapped e (''literal sources ''
                                    @ fmt_v_strings (LiteralSources a)))
             \<and> (\<exists>ids. getAgeIdentities w (AgeIdentitySources a) = Inr ids
                   \<and> (\<exists>s\<in>set (LiteralSources a). literalPair w ids s = Inl e)))
        \<or> (snd (Load w a) = Some (Wrapped e (''file sources: ''
                                    @ fmt_v_strings (FileSources a)))
             \<and> (\<exists>ids. getAgeIdentities w (AgeIdentitySources a) = Inr ids
                   \<and> (\<exists>s\<in>set (FileSources a). filePair w ids s = Inl e))))"
proof (cases "getAgeIdentities w (AgeIdentitySources a)")
  case (Inl e)
  have "\<exists>p\<in>set (AgeIdentitySources a). identitiesFromSource w p = Inl e"
    using Inl by (rule getAgeIdentities_Inl)
  then show ?thesis using Load_identities_fail [OF Inl] by auto
next
  case (Inr ids)
  have "\<not> (\<exists>p\<in>set (AgeIdentitySources a). isl (identitiesFromSource w p))"
    using getAgeIdentities_fails [of _ "AgeIdentitySources a" w] Inr by auto
  then have item: "(\<exists>p\<in>set (EnvSources a). isl (envFilePairs w ids p))
              \<or> (\<exists>s\<in>set (LiteralSources a). isl (literalPair w ids s))
              \<or> (\<exists>s\<in>set (FileSources a). isl (filePair w ids s))"
    using assms Inr by auto
  show ?thesis
  proof (cases "keyValuesFromEnvFiles w (EnvSources a) ids")
    case e: (Inl e)
    have "\<exists>p\<in>set (EnvSources a). envFilePairs w ids p = Inl e"
      using e env_loop_Inl unfolding keyValuesFromEnvFiles_def by blast
    then show ?thesis using Load_env_fail [OF Inr e] Inr by auto
  next
    case e: (Inr pairs1)
    have noenv: "\<not> (\<exists>p\<in>set (EnvSources a). isl (envFilePairs w ids p))"
      using env_loop_fails [of _ "EnvSources a" w ids "[]"] e
      unfolding keyValuesFromEnvFiles_def by auto
    show ?thesis
    proof (cases "keyValuesFromLiteralSources w (LiteralSources a) ids")
      case l: (Inl e')
      have "\<exists>s\<in>set (LiteralSources a). literalPair w ids s = Inl e'"
        using l literal_loop_Inl unfolding keyValuesFromLiteralSources_def by blast
      then show ?thesis using Load_literal_fail [OF Inr e l] Inr by auto
    next
      case l: (Inr pairs2)
      have nolit: "\<not> (\<exists>s\<in>set (LiteralSources a). isl (literalPair w ids s))"
        using literal_loop_fails [of _ "LiteralSources a" w ids "[]"] l
        unfolding keyValuesFromLiteralSources_def by auto
      show ?thesis
      proof (cases "keyValuesFromFileSources w (FileSources a) ids")
        case f: (Inl e')
        have "\<exists>s\<in>set (FileSources a). filePair w ids s = Inl e'"
          using f file_loop_Inl unfolding keyValuesFromFileSources_def by blast
        then show ?thesis using Load_file_fail [OF Inr e l f] Inr by auto
      next
        case f: (Inr pairs3)
        have "\<not> (\<exists>s\<in>set (FileSources a). isl (filePair w ids s))"
          using file_loop_fails [of _ "FileSources a" w ids "[]"] f
          unfolding keyValuesFromFileSources_def by auto
        then show ?thesis using item noenv nolit by blast
      qed
    qed
  qed
qed

lemma Load_error_witness:
  "((\<exists>p\<in>set (AgeIdentitySources demo_bad_args). isl (identitiesFromSource demo_world p))
     \<or> (\<exists>ids. getAgeIdentities demo_world (AgeIdentitySources demo_bad_args) = Inr ids
           \<and> ((\<exists>p\<in>set (EnvSources demo_bad_args). isl (envFilePairs demo_world ids p))
              \<or> (\<exists>s\<in>set (LiteralSources demo_bad_args). isl (literalPair demo_world ids s))
              \<or> (\<exists>s\<in>set (FileSources demo_bad_args). isl (filePair demo_world ids s)))))
   \<and> fst (Load demo_world demo_bad_args) = []
   \<and> Load demo_world demo_bad_args
       = ([], Some (Wrapped (InvalidLiteralSource ''bad'') ''literal sources [k=v bad]''))
   \<and> error_Error (Wrapped (InvalidLiteralSource ''bad'') ''literal sources [k=v bad]'')
       = ''literal sources [k=v bad]: invalid literal source bad, expected key=value''"
proof -
  have g: "getAgeIdentities demo_world (AgeIdentitySources demo_bad_args) = Inr [3]"
    by code_simp
  have l: "isl (literalPair demo_world [3] ''bad'')" by code_simp
  have m: "''bad'' \<in> set (LiteralSources demo_bad_args)" by (simp add: demo_bad_args_def)
  have hyp: "(\<exists>p\<in>set (AgeIdentitySources demo_bad_args). isl (identitiesFromSource demo_world p))
     \<or> (\<exists>ids. getAgeIdentities demo_world (AgeIdentitySources demo_bad_args) = Inr ids
           \<and> ((\<exists>p\<in>set (EnvSources demo_bad_args). isl (envFilePairs demo_world ids p))
              \<or> (\<exists>s\<in>set (LiteralSources demo_bad_args). isl (literalPair demo_world ids s))
              \<or> (\<exists>s\<in>set (FileSources demo_bad_args). isl (filePair demo_world ids s))))"
    using g l m by blast
  have f: "fst (Load demo_world demo_bad_args) = []"
    using Load_error [OF hyp] by (rule conjunct1)
  have v: "Load demo_world demo_bad_args
       = ([], Some (Wrapped (InvalidLiteralSource ''bad'') ''literal sources [k=v bad]''))"
    by code_simp
  have t: "error_Error (Wrapped (InvalidLiteralSource ''bad'') ''literal sources [k=v bad]'')
       = ''literal sources [k=v bad]: invalid literal source bad, expected key=value''"
    by simp
  show ?thesis by (intro conjI hyp f v t)
qed

section \<open>Where the code departs from the claims\<close>

subsection \<open>A scanner error that is never read\<close>

lemma scanLines_line:
  assumes "CHR 0x0A \<notin> set l" and "int (length l) < MaxScanTokenSize"
  shows "scanLines (l @ CHR 0x0A # rest) = dropCR l # scanLines rest"
proof -
  have i: "strings_IndexByte (l @ CHR 0x0A # rest) (CHR 0x0A) = int (length l)"
    using assms(1) by (rule IndexByte_first)
  show ?thesis
    by (subst scanLines.simps) (simp add: i assms(2) Let_def del: scanLines.simps)
qed

lemma scanLines_overlong:
  assumes "CHR 0x0A \<notin> set l" and "MaxScanTokenSize \<le> int (length l)"
  shows "scanLines (l @ CHR 0x0A # rest) = []"
proof -
  have i: "strings_IndexByte (l @ CHR 0x0A # rest) (CHR 0x0A) = int (length l)"
    using assms(1) by (rule IndexByte_first)
  show ?thesis
    using assms(2)
    by (subst scanLines.simps) (simp add: i Let_def del: scanLines.simps)
qed

lemma scanner_Err_line:
  assumes "CHR 0x0A \<notin> set l" and "int (length l) < MaxScanTokenSize"
  shows "scanner_ErrTooLong (l @ CHR 0x0A # rest) = scanner_ErrTooLong rest"
proof -
  have i: "strings_IndexByte (l @ CHR 0x0A # rest) (CHR 0x0A) = int (length l)"
    using assms(1) by (rule IndexByte_first)
  show ?thesis
    by (subst scanner_ErrTooLong.simps)
       (simp add: i assms(2) Let_def del: scanner_ErrTooLong.simps)
qed

lemma scanner_Err_overlong:
  assumes "CHR 0x0A \<notin> set l" and "MaxScanTokenSize \<le> int (length l)"
  shows "scanner_ErrTooLong (l @ CHR 0x0A # rest)"
proof -
  have i: "strings_IndexByte (l @ CHR 0x0A # rest) (CHR 0x0A) = int (length l)"
    using assms(1) by (rule IndexByte_first)
  show ?thesis
    using assms(2)
    by (subst scanner_ErrTooLong.simps)
       (simp add: i Let_def del: scanner_ErrTooLong.simps)
qed

lemma demo_long_scan:
  "scanLines demo_long_content = [''A=1''] \<and> scanner_ErrTooLong demo_long_content"
proof -
  have c: "demo_long_content
             = ''A=1'' @ CHR 0x0A # (replicate 65536 (CHR ''x'') @ CHR 0x0A # ''B=2'')"
    by (simp add: demo_long_content_def)
  have a: "CHR 0x0A \<notin> set ''A=1''" "int (length ''A=1'') < MaxScanTokenSize"
    by (simp_all add: MaxScanTokenSize_def)
  have b: "CHR 0x0A \<notin> set (replicate 65536 (CHR ''x''))"
      "MaxScanTokenSize \<le> int (length (replicate 65536 (CHR ''x'')))"
    by (simp_all add: MaxScanTokenSize_def)
  have "scanLines demo_long_content = [''A=1'']"
    unfolding c
    by (simp only: scanLines_line [OF a] scanLines_overlong [OF b]) (simp add: dropCR_def)
  moreover have "scanner_ErrTooLong demo_long_content"
    unfolding c
    by (simp only: scanner_Err_line [OF a] scanner_Err_overlong [OF b])
  ultimately show ?thesis ..
qed


lemma demo_long_env:
  "envFilePairs demo_long_world [3] ''long.env'' = Inr [\<lparr>Key = ''A'', Value = ''1''\<rparr>]"
proof -
  have ld: "ldr_Load demo_long_world ''long.env'' = Inr demo_long_content"
    by (simp add: demo_long_world_def)
  have sf: "\<not> strings_HasSuffix ''long.env'' ''.age''"
    by (simp add: strings_HasSuffix_def)
  have kv: "keyValuesFromLine demo_long_world ''A=1'' 0 = Inr \<lparr>Key = ''A'', Value = ''1''\<rparr>"
    by code_simp
  have "keyValuesFromLines demo_long_world demo_long_content
          = Inr [\<lparr>Key = ''A'', Value = ''1''\<rparr>]"
    by (simp add: keyValuesFromLines_def demo_long_scan kv del: scanLines.simps)
  then show ?thesis
    by (simp add: envFilePairs_def ld sf)
qed

text \<open>
  Claim C2 does not hold of the code. The env file \<open>long.env\<close> is read, its first
  line gives the pair \<open>A=1\<close>, and its second line is too long for the scanner, which
  stops with \<open>ErrTooLong\<close>. \<open>keyValuesFromLines\<close> ends its loop there without
  reading \<open>scanner.Err()\<close>, so the third line \<open>B=2\<close> is lost and no error is
  returned: processing of the env file has failed, yet \<open>Load\<close> returns a list of
  pairs (the one pair read, then those of the other sources) and a nil error, where
  the claim promises an error and a nil list.
\<close>

theorem Load_drops_scanner_error:
  "ldr_Load demo_long_world ''long.env'' = Inr demo_long_content
   \<and> scanner_ErrTooLong demo_long_content
   \<and> envFilePairs demo_long_world [3] ''long.env'' = Inr [\<lparr>Key = ''A'', Value = ''1''\<rparr>]
   \<and> Load demo_long_world demo_long_args
       = ([\<lparr>Key = ''A'', Value = ''1''\<rparr>, \<lparr>Key = ''k'', Value = ''v''\<rparr>,
           \<lparr>Key = ''cert.pem'', Value = ''PEM''\<rparr>], None)"
proof -
  have ld: "ldr_Load demo_long_world ''long.env'' = Inr demo_long_content"
    by (simp add: demo_long_world_def)
  have g: "getAgeIdentities demo_long_world (AgeIdentitySources demo_long_args) = Inr [3]"
    by code_simp
  have e: "keyValuesFromEnvFiles demo_long_world (EnvSources demo_long_args) [3]
             = Inr [\<lparr>Key = ''A'', Value = ''1''\<rparr>]"
    by (simp add: keyValuesFromEnvFiles_def demo_long_args_def demo_long_env)
  have l: "keyValuesFromLiteralSources demo_long_world (LiteralSources demo_long_args) [3]
             = Inr [\<lparr>Key = ''k'', Value = ''v''\<rparr>]"
    by code_simp
  have f: "keyValuesFromFileSources demo_long_world (FileSources demo_long_args) [3]
             = Inr [\<lparr>Key = ''cert.pem'', Value = ''PEM''\<rparr>]"
    by code_simp
  have "Load demo_long_world demo_long_args
       = ([\<lparr>Key = ''A'', Value = ''1''\<rparr>, \<lparr>Key = ''k'', Value = ''v''\<rparr>,
           \<lparr>Key = ''cert.pem'', Value = ''PEM''\<rparr>], None)"
    using Load_success [OF g e l f] by simp
  then show ?thesis
    by (intro conjI ld demo_long_scan [THEN conjunct2] demo_long_env)
qed

subsection \<open>The suffix that is trimmed as a set, and the message without index\<close>

text \<open>
  Claim C3 does not hold of the code. For a file source whose path ends with \<open>.age\<close>
  the key is passed to \<open>strings.TrimRight(k, ".age")\<close>, which removes every trailing
  character among \<open>.\<close>, \<open>a\<close>, \<open>g\<close>, \<open>e\<close>, not the suffix \<open>.age\<close>: the file source
  \<open>data.age\<close> yields the key \<open>dat\<close> where the claim promises \<open>data\<close>, and
  \<open>message=data.age\<close>, whose key has no such suffix, yields \<open>mess\<close>.
\<close>

theorem keyValuesFromFileSources_trims_cutset:
  "keyValuesFromFileSources demo_world [''data.age''] []
     = Inr [\<lparr>Key = ''dat'', Value = ''V:blob''\<rparr>]
   \<and> keyValuesFromFileSources demo_world [''message=data.age''] []
     = Inr [\<lparr>Key = ''mess'', Value = ''V:blob''\<rparr>]
   \<and> strings_TrimSuffix ''data.age'' ''.age'' = ''data''"
  by code_simp

text \<open>
  Claim C4 does not hold of the code, for the same reason. The literal source
  \<open>page.age=x\<close> has the parsed key \<open>page.age\<close>; the key emitted is \<open>p\<close>, not \<open>page\<close>.
\<close>

theorem keyValuesFromLiteralSources_trims_cutset:
  "parseLiteralSource ''page.age=x'' = Inr (''page.age'', ''x'')
   \<and> keyValuesFromLiteralSources demo_world [''page.age=x''] []
     = Inr [\<lparr>Key = ''p'', Value = ''V:x''\<rparr>]
   \<and> strings_TrimSuffix ''page.age'' ''.age'' = ''page''"
  by code_simp

text \<open>
  Claim C9 does not hold of the code. A line that is not valid UTF-8 is refused, but
  the message is built from the bytes of the line, never from its index: for the line
  made of the byte \<open>0xFF\<close>, at index 7 as at index 0, the message reads
  \<open>line [255] has invalid utf8 bytes : \<close> followed by that byte.
\<close>

theorem keyValuesFromLine_invalid_utf8_message:
  "keyValuesFromLine demo_world [CHR 0xFF] 7 = Inl (InvalidUtf8 [CHR 0xFF] [CHR 0xFF])
   \<and> keyValuesFromLine demo_world [CHR 0xFF] 0 = Inl (InvalidUtf8 [CHR 0xFF] [CHR 0xFF])
   \<and> error_Error (InvalidUtf8 [CHR 0xFF] [CHR 0xFF])
       = ''line [255] has invalid utf8 bytes : '' @ [CHR 0xFF]"
  by code_simp

end
